theory Spec2Isabelle
  imports Complex_Main "HOL-Library.Word" "HOL-Library.AList"
begin

section \<open>Data model of the metrics engine (src/metrics/metrics.go)\<close>

text \<open>
  Go's \<open>int64\<close> is a 64-bit word (addition wraps). Go's \<open>float64\<close> is modelled by
  \<open>real\<close>: sums and quotients are exact here, IEEE rounding is not modelled. A
  \<open>time.Duration\<close> is a number of nanoseconds; a \<open>time.Time\<close> of this program is
  either the zero time or the result of parsing a second-resolution UTC stamp, so it
  is modelled by its Unix second count.
\<close>

type_synonym int64 = "64 word"
type_synonym float64 = real
type_synonym Duration = int
type_synonym Time = int

text \<open>
  A Go map with string keys is kept as an association list. Reading a missing key gives
  the zero value, storing replaces the entry or adds one. Go leaves the order of
  \<open>range\<close> over a map unspecified; the model ranges in list order.
\<close>

type_synonym 'v gomap = "(string \<times> 'v) list"

definition m_load :: "'v::zero gomap \<Rightarrow> string \<Rightarrow> 'v" where
  "m_load m k = (case map_of m k of None \<Rightarrow> 0 | Some v \<Rightarrow> v)"

definition m_store :: "string \<Rightarrow> 'v \<Rightarrow> 'v gomap \<Rightarrow> 'v gomap" where
  "m_store k v m = AList.update k v m"

definition m_add :: "string \<Rightarrow> 'v::{zero,plus} \<Rightarrow> 'v gomap \<Rightarrow> 'v gomap" where
  "m_add k d m = m_store k (m_load m k + d) m"

definition m_keys :: "'v gomap \<Rightarrow> string list" where
  "m_keys m = map fst m"

record Config =
  ServerID :: string
  SDPInstance :: string
  UpdateInterval :: Duration
  OutputCmdsByUser :: bool
  OutputCmdsByUserRegex :: string
  OutputCmdsByIP :: bool
  CaseSensitiveServer :: bool

text \<open>
  Modelled from the spec: the types \<open>p4dlog.Command\<close> and its table entries are declared
  in the parser package, which is not among the sources. The fields are the ones
  \<open>publishEvent\<close> reads; the tables are taken in the order the loop visits them.
  The lapse times are \<open>float32\<close> there and are widened to \<open>float64\<close> where they are read.
\<close>

record Table =
  TableName :: string
  TotalReadWait :: int64
  TotalReadHeld :: int64
  TotalWriteWait :: int64
  TotalWriteHeld :: int64
  TriggerLapse :: float64

record Command =
  Cmd :: string
  User :: string
  IP :: string
  App :: string
  CompletedLapse :: float64
  UCpu :: int64
  SCpu :: int64
  Running :: int64
  NetFilesAdded :: int64
  NetFilesUpdated :: int64
  NetFilesDeleted :: int64
  NetBytesAdded :: int64
  NetBytesUpdated :: int64
  CmdError :: bool
  Tables :: "Table list"

text \<open>
  The struct \<open>P4DMetrics\<close>. The logger, the writer, the debug level and the parser handle
  carry no aggregate and are left out; \<open>timeChan\<close> holds the time stamps sent to the
  parser so far, oldest first; \<open>outputCmdsByUserRegex\<close> is \<open>None\<close> while the pointer is
  nil and holds the compiled expression's match function afterwards.
\<close>

record P4DMetrics =
  config :: Config
  historical :: bool
  timeLatestStartCmd :: Time
  latestStartCmdBuf :: string
  timeChan :: "Time list"
  cmdRunning :: int64
  cmdCounter :: "int64 gomap"
  cmdErrorCounter :: "int64 gomap"
  cmdCumulative :: "float64 gomap"
  cmduCPUCumulative :: "float64 gomap"
  cmdsCPUCumulative :: "float64 gomap"
  cmdByUserCounter :: "int64 gomap"
  cmdByUserCumulative :: "float64 gomap"
  cmdByIPCounter :: "int64 gomap"
  cmdByIPCumulative :: "float64 gomap"
  cmdByReplicaCounter :: "int64 gomap"
  cmdByReplicaCumulative :: "float64 gomap"
  cmdByProgramCounter :: "int64 gomap"
  cmdByProgramCumulative :: "float64 gomap"
  cmdByUserDetailCounter :: "(string \<times> int64 gomap) list"
  cmdByUserDetailCumulative :: "(string \<times> float64 gomap) list"
  totalReadWait :: "float64 gomap"
  totalReadHeld :: "float64 gomap"
  totalWriteWait :: "float64 gomap"
  totalWriteHeld :: "float64 gomap"
  totalTriggerLapse :: "float64 gomap"
  syncFilesAdded :: int64
  syncFilesUpdated :: int64
  syncFilesDeleted :: int64
  syncBytesAdded :: int64
  syncBytesUpdated :: int64
  cmdsProcessed :: int64
  linesRead :: int64
  outputCmdsByUserRegex :: "(string \<Rightarrow> bool) option"


text \<open>
  What the engine takes from Go's library and cannot be written out here:
  \<open>strings.ToLower\<close> (Unicode case folding) and \<open>regexp.MustCompile\<close>, which gives
  the match function of an expression or panics (\<open>None\<close>) when it does not compile.
\<close>

record extern =
  ToLower :: "string \<Rightarrow> string"
  MustCompile :: "string \<Rightarrow> (string \<Rightarrow> bool) option"

datatype panic = RegexpCompilePanic | NilMapPanic | NonPositiveTickerPanic

section \<open>Constructor\<close>

definition zeroTime :: Time where
  "zeroTime = - 62135596800"

definition NewP4DMetricsLogParser :: "Config \<Rightarrow> bool \<Rightarrow> P4DMetrics" where
  "NewP4DMetricsLogParser cfg hist =
     \<lparr> config = cfg, historical = hist, timeLatestStartCmd = zeroTime,
       latestStartCmdBuf = [], timeChan = [], cmdRunning = 0,
       cmdCounter = [], cmdErrorCounter = [], cmdCumulative = [],
       cmduCPUCumulative = [], cmdsCPUCumulative = [],
       cmdByUserCounter = [], cmdByUserCumulative = [],
       cmdByIPCounter = [], cmdByIPCumulative = [],
       cmdByReplicaCounter = [], cmdByReplicaCumulative = [],
       cmdByProgramCounter = [], cmdByProgramCumulative = [],
       cmdByUserDetailCounter = [], cmdByUserDetailCumulative = [],
       totalReadWait = [], totalReadHeld = [], totalWriteWait = [], totalWriteHeld = [],
       totalTriggerLapse = [],
       syncFilesAdded = 0, syncFilesUpdated = 0, syncFilesDeleted = 0,
       syncBytesAdded = 0, syncBytesUpdated = 0, cmdsProcessed = 0, linesRead = 0,
       outputCmdsByUserRegex = None \<rparr>"

section \<open>The aggregator: publishEvent\<close>

definition float64_of :: "int64 \<Rightarrow> float64" where
  "float64_of n = real_of_int (sint n)"

text \<open>Lines 487 to 499: the per-command aggregates, the gauge and the sync counts.\<close>

definition recordCmd :: "P4DMetrics \<Rightarrow> Command \<Rightarrow> P4DMetrics" where
  "recordCmd p cmd =
     p\<lparr> cmdCounter := m_add (Cmd cmd) 1 (cmdCounter p),
        cmdCumulative := m_add (Cmd cmd) (CompletedLapse cmd) (cmdCumulative p),
        cmduCPUCumulative := m_add (Cmd cmd) (float64_of (UCpu cmd) / 1000) (cmduCPUCumulative p),
        cmdsCPUCumulative := m_add (Cmd cmd) (float64_of (SCpu cmd) / 1000) (cmdsCPUCumulative p),
        cmdErrorCounter :=
          (if CmdError cmd then m_add (Cmd cmd) 1 (cmdErrorCounter p) else cmdErrorCounter p),
        cmdRunning := Running cmd,
        syncFilesAdded := syncFilesAdded p + NetFilesAdded cmd,
        syncFilesUpdated := syncFilesUpdated p + NetFilesUpdated cmd,
        syncFilesDeleted := syncFilesDeleted p + NetFilesDeleted cmd,
        syncBytesAdded := syncBytesAdded p + NetBytesAdded cmd,
        syncBytesUpdated := syncBytesUpdated p + NetBytesUpdated cmd \<rparr>"

text \<open>Lines 500 to 519: the per-user aggregates and the optional (user, command) detail.\<close>

definition userName :: "extern \<Rightarrow> P4DMetrics \<Rightarrow> Command \<Rightarrow> string" where
  "userName ext p cmd =
     (if CaseSensitiveServer (config p) then User cmd else ToLower ext (User cmd))"

definition d_load :: "(string \<times> 'v gomap) list \<Rightarrow> string \<Rightarrow> 'v gomap" where
  "d_load m k = (case map_of m k of None \<Rightarrow> [] | Some im \<Rightarrow> im)"

text \<open>
  Lines 512 to 517. The two inner maps are made together when the counter map has no
  entry for the user; storing into the inner map of a user the cumulative map does not
  hold would be a store into a nil map, which panics in Go.
\<close>

definition recordUserDetail :: "P4DMetrics \<Rightarrow> string \<Rightarrow> Command \<Rightarrow> panic + P4DMetrics" where
  "recordUserDetail p user cmd =
     (let p1 = (if map_of (cmdByUserDetailCounter p) user = None
                then p\<lparr> cmdByUserDetailCounter := m_store user [] (cmdByUserDetailCounter p),
                        cmdByUserDetailCumulative := m_store user [] (cmdByUserDetailCumulative p) \<rparr>
                else p)
      in if map_of (cmdByUserDetailCumulative p1) user = None then Inl NilMapPanic
         else Inr (p1\<lparr> cmdByUserDetailCounter :=
                          m_store user (m_add (Cmd cmd) 1 (d_load (cmdByUserDetailCounter p1) user))
                            (cmdByUserDetailCounter p1),
                        cmdByUserDetailCumulative :=
                          m_store user
                            (m_add (Cmd cmd) (CompletedLapse cmd)
                               (d_load (cmdByUserDetailCumulative p1) user))
                            (cmdByUserDetailCumulative p1) \<rparr>))"

definition recordUser :: "extern \<Rightarrow> P4DMetrics \<Rightarrow> Command \<Rightarrow> panic + P4DMetrics" where
  "recordUser ext p cmd =
     (let user = userName ext p cmd;
          p1 = p\<lparr> cmdByUserCounter := m_add user 1 (cmdByUserCounter p),
                  cmdByUserCumulative := m_add user (CompletedLapse cmd) (cmdByUserCumulative p) \<rparr>
      in if OutputCmdsByUserRegex (config p) \<noteq> []
         then (case (case outputCmdsByUserRegex p1 of
                       None \<Rightarrow> MustCompile ext (''('' @ OutputCmdsByUserRegex (config p) @ '')'')
                     | Some r \<Rightarrow> Some r) of
                 None \<Rightarrow> Inl RegexpCompilePanic
               | Some r \<Rightarrow>
                   (let p2 = p1\<lparr> outputCmdsByUserRegex := Some r \<rparr>
                    in if r user then recordUserDetail p2 user cmd else Inr p2))
         else Inr p1)"

text \<open>Lines 520 to 533: the client address, optionally prefixed by a replica and a slash.\<close>

definition hasPrefix :: "string \<Rightarrow> string \<Rightarrow> bool" where
  "hasPrefix s pre = (take (length pre) s = pre)"

fun strings_Index :: "string \<Rightarrow> string \<Rightarrow> int" where
  "strings_Index [] sep = (if sep = [] then 0 else - 1)"
| "strings_Index (c # t) sep =
     (if hasPrefix (c # t) sep then 0
      else (let r = strings_Index t sep in if r < 0 then - 1 else r + 1))"

definition splitIP :: "string \<Rightarrow> string \<times> string" where
  "splitIP s =
     (let j = strings_Index s ''/''
      in if j > 0 then (drop (nat j + 1) s, take (nat j) s) else (s, []))"

definition recordIP :: "P4DMetrics \<Rightarrow> Command \<Rightarrow> P4DMetrics" where
  "recordIP p cmd =
     (let (ip, replica) = splitIP (IP cmd);
          p1 = p\<lparr> cmdByIPCounter := m_add ip 1 (cmdByIPCounter p),
                  cmdByIPCumulative := m_add ip (CompletedLapse cmd) (cmdByIPCumulative p) \<rparr>
      in if replica \<noteq> []
         then p1\<lparr> cmdByReplicaCounter := m_add replica 1 (cmdByReplicaCounter p1),
                   cmdByReplicaCumulative :=
                     m_add replica (CompletedLapse cmd) (cmdByReplicaCumulative p1) \<rparr>
         else p1)"

text \<open>
  Lines 534 to 538: the program name. \<open>strings.ReplaceAll\<close> with an empty replacement
  deletes the occurrences of the old text, found left to right without overlap.
\<close>

definition brokered :: string where
  "brokered = '' (brokered)''"

fun strings_ReplaceAll_del :: "string \<Rightarrow> string \<Rightarrow> string" where
  "strings_ReplaceAll_del [] old = []"
| "strings_ReplaceAll_del (c # t) old =
     (if old \<noteq> [] \<and> hasPrefix (c # t) old
      then strings_ReplaceAll_del (drop (length old - 1) t) old
      else c # strings_ReplaceAll_del t old)"

text \<open>
  The character class of \<open>NotLabelValueRE\<close> is the complement of these bytes. The
  expression is matched rune by rune: a byte below 0x80 is one rune, a well-formed
  UTF-8 sequence of two to four bytes is one rune, and any other byte counts as one
  (invalid) rune of width one; \<open>runeLen\<close> is the width \<open>utf8.DecodeRuneInString\<close> gives.
\<close>

definition labelValueChars :: string where
  "labelValueChars =
     ''abcdefghijklmnopqrstuvwxyzABCDEFGHIJKLMNOPQRSTUVWXYZ0123456789''
     @ ''_/+:@'' @ ''{}&%<>*'' @ [CHR 0x5C] @ ''.,()[]-''"

definition byteIn :: "char \<Rightarrow> nat \<Rightarrow> nat \<Rightarrow> bool" where
  "byteIn c lo hi = (lo \<le> of_char c \<and> (of_char c :: nat) \<le> hi)"

fun runeLen :: "string \<Rightarrow> nat" where
  "runeLen [] = 0"
| "runeLen [c] = 1"
| "runeLen [c, c1] = (if byteIn c 0xC2 0xDF \<and> byteIn c1 0x80 0xBF then 2 else 1)"
| "runeLen [c, c1, c2] =
     (if byteIn c 0xC2 0xDF \<and> byteIn c1 0x80 0xBF then 2
      else if (byteIn c 0xE0 0xE0 \<and> byteIn c1 0xA0 0xBF
               \<or> (byteIn c 0xE1 0xEC \<or> byteIn c 0xEE 0xEF) \<and> byteIn c1 0x80 0xBF
               \<or> byteIn c 0xED 0xED \<and> byteIn c1 0x80 0x9F) \<and> byteIn c2 0x80 0xBF then 3
      else 1)"
| "runeLen (c # c1 # c2 # c3 # cs) =
     (if byteIn c 0xC2 0xDF \<and> byteIn c1 0x80 0xBF then 2
      else if (byteIn c 0xE0 0xE0 \<and> byteIn c1 0xA0 0xBF
               \<or> (byteIn c 0xE1 0xEC \<or> byteIn c 0xEE 0xEF) \<and> byteIn c1 0x80 0xBF
               \<or> byteIn c 0xED 0xED \<and> byteIn c1 0x80 0x9F) \<and> byteIn c2 0x80 0xBF then 3
      else if (byteIn c 0xF0 0xF0 \<and> byteIn c1 0x90 0xBF
               \<or> byteIn c 0xF1 0xF3 \<and> byteIn c1 0x80 0xBF
               \<or> byteIn c 0xF4 0xF4 \<and> byteIn c1 0x80 0x8F)
              \<and> byteIn c2 0x80 0xBF \<and> byteIn c3 0x80 0xBF then 4
      else 1)"

lemma runeLen_pos: "runeLen (c # cs) \<ge> 1"
  by (cases "(c # cs)" rule: runeLen.cases) auto

function NotLabelValueRE_ReplaceAllString :: "string \<Rightarrow> string" where
  "NotLabelValueRE_ReplaceAllString [] = []"
| "NotLabelValueRE_ReplaceAllString (c # cs) =
     (if c \<in> set labelValueChars then c # NotLabelValueRE_ReplaceAllString cs
      else CHR ''_'' # NotLabelValueRE_ReplaceAllString (drop (runeLen (c # cs) - 1) cs))"
  by pat_completeness auto
termination
  by (relation "measure length") auto

definition programKey :: "string \<Rightarrow> string" where
  "programKey app = NotLabelValueRE_ReplaceAllString (strings_ReplaceAll_del app brokered)"

definition recordProgram :: "P4DMetrics \<Rightarrow> Command \<Rightarrow> P4DMetrics" where
  "recordProgram p cmd =
     (let program = programKey (App cmd)
      in p\<lparr> cmdByProgramCounter := m_add program 1 (cmdByProgramCounter p),
             cmdByProgramCumulative :=
               m_add program (CompletedLapse cmd) (cmdByProgramCumulative p) \<rparr>)"

text \<open>Lines 539 to 551: the table entries, lock times or a trigger's lapse time.\<close>

definition triggerPrefix :: string where
  "triggerPrefix = ''trigger_''"

definition isTriggerName :: "string \<Rightarrow> bool" where
  "isTriggerName n =
     (length n > length triggerPrefix \<and> take (length triggerPrefix) n = triggerPrefix)"

definition recordTable :: "Table \<Rightarrow> P4DMetrics \<Rightarrow> P4DMetrics" where
  "recordTable t p =
     (if isTriggerName (TableName t)
      then p\<lparr> totalTriggerLapse :=
                 m_add (drop (length triggerPrefix) (TableName t)) (TriggerLapse t)
                   (totalTriggerLapse p) \<rparr>
      else p\<lparr> totalReadHeld :=
                 m_add (TableName t) (float64_of (TotalReadHeld t) / 1000) (totalReadHeld p),
               totalReadWait :=
                 m_add (TableName t) (float64_of (TotalReadWait t) / 1000) (totalReadWait p),
               totalWriteHeld :=
                 m_add (TableName t) (float64_of (TotalWriteHeld t) / 1000) (totalWriteHeld p),
               totalWriteWait :=
                 m_add (TableName t) (float64_of (TotalWriteWait t) / 1000) (totalWriteWait p) \<rparr>)"

definition recordTables :: "P4DMetrics \<Rightarrow> Command \<Rightarrow> P4DMetrics" where
  "recordTables p cmd = fold recordTable (Tables cmd) p"

definition publishEvent :: "extern \<Rightarrow> P4DMetrics \<Rightarrow> Command \<Rightarrow> panic + P4DMetrics" where
  "publishEvent ext p cmd =
     (case recordUser ext (recordCmd p cmd) cmd of
        Inl e \<Rightarrow> Inl e
      | Inr p1 \<Rightarrow> Inr (recordTables (recordProgram (recordIP p1 cmd) cmd) cmd))"

section \<open>resetToZero\<close>

definition zeroAll :: "'v::zero gomap \<Rightarrow> 'v gomap" where
  "zeroAll m = fold (\<lambda>t m'. m_store t 0 m') (m_keys m) m"

definition resetLocks :: "P4DMetrics \<Rightarrow> P4DMetrics" where
  "resetLocks p =
     fold (\<lambda>t q. q\<lparr> totalReadHeld := m_store t 0 (totalReadHeld q),
                    totalReadWait := m_store t 0 (totalReadWait q),
                    totalWriteHeld := m_store t 0 (totalWriteHeld q),
                    totalWriteWait := m_store t 0 (totalWriteWait q) \<rparr>)
       (m_keys (totalReadHeld p)) p"

definition resetDetail :: "(string \<times> int64 gomap) list \<Rightarrow> (string \<times> int64 gomap) list" where
  "resetDetail m = fold (\<lambda>t m'. m_store t (zeroAll (d_load m' t)) m') (m_keys m) m"

definition resetToZero :: "P4DMetrics \<Rightarrow> P4DMetrics" where
  "resetToZero p =
     (let p1 = resetLocks p
      in p1\<lparr> syncFilesAdded := 0, syncFilesUpdated := 0, syncFilesDeleted := 0,
              syncBytesAdded := 0, syncBytesUpdated := 0,
              cmdRunning := 0, linesRead := 0,
              totalTriggerLapse := zeroAll (totalTriggerLapse p1),
              cmdByProgramCounter := zeroAll (cmdByProgramCounter p1),
              cmdByReplicaCounter := zeroAll (cmdByReplicaCounter p1),
              cmdByUserDetailCounter := resetDetail (cmdByUserDetailCounter p1),
              cmdByIPCounter := zeroAll (cmdByIPCounter p1),
              cmdByUserCounter := zeroAll (cmdByUserCounter p1),
              cmdErrorCounter := zeroAll (cmdErrorCounter p1),
              cmdCounter := zeroAll (cmdCounter p1) \<rparr>)"

section \<open>The historical boundary detector\<close>

text \<open>
  \<open>time.Parse\<close> with the layout \<open>2006/01/02 15:04:05\<close>, applied to the nineteen
  bytes after the tab of a line that passed the byte checks: every field is a run of
  digits of the layout's width. Go refuses a month outside 1..12, a day outside the
  month, an hour above 23 and a minute or second above 59; the caller drops the error
  and keeps the zero time that comes with it. A parsed time has no zone and is UTC.
\<close>

definition digitVal :: "char \<Rightarrow> int" where
  "digitVal c = int (of_char c) - 48"

definition num2 :: "string \<Rightarrow> nat \<Rightarrow> int" where
  "num2 s i = digitVal (s ! i) * 10 + digitVal (s ! (i + 1))"

definition num4 :: "string \<Rightarrow> nat \<Rightarrow> int" where
  "num4 s i = num2 s i * 100 + num2 s (i + 2)"

definition isLeap :: "int \<Rightarrow> bool" where
  "isLeap y = (y mod 4 = 0 \<and> (y mod 100 \<noteq> 0 \<or> y mod 400 = 0))"

definition daysIn :: "int \<Rightarrow> int \<Rightarrow> int" where
  "daysIn m y =
     (if m = 2 then (if isLeap y then 29 else 28)
      else if m = 4 \<or> m = 6 \<or> m = 9 \<or> m = 11 then 30 else 31)"

definition daysFromCivil :: "int \<Rightarrow> int \<Rightarrow> int \<Rightarrow> int" where
  "daysFromCivil y m d =
     (let y' = (if m \<le> 2 then y - 1 else y);
          era = y' div 400;
          yoe = y' - era * 400;
          doy = (153 * ((m + 9) mod 12) + 2) div 5 + d - 1;
          doe = yoe * 365 + yoe div 4 - yoe div 100 + doy
      in era * 146097 + doe - 719468)"

definition time_Parse :: "string \<Rightarrow> Time" where
  "time_Parse s =
     (let year = num4 s 0; month = num2 s 5; day = num2 s 8;
          hour = num2 s 11; mi = num2 s 14; sec = num2 s 17
      in if month \<le> 0 \<or> 12 < month \<or> 24 \<le> hour \<or> 60 \<le> mi \<or> 60 \<le> sec
            \<or> day < 1 \<or> day > daysIn month year
         then zeroTime
         else daysFromCivil year month day * 86400 + hour * 3600 + mi * 60 + sec)"

text \<open>\<open>Time.Sub\<close>: the difference in nanoseconds, saturating at the ends of \<open>int64\<close>.\<close>

definition Second :: Duration where
  "Second = 1000000000"

definition time_Sub :: "Time \<Rightarrow> Time \<Rightarrow> Duration" where
  "time_Sub t u =
     (let d = (t - u) * Second
      in if d < - (2 ^ 63) then - (2 ^ 63) else if d > 2 ^ 63 - 1 then 2 ^ 63 - 1 else d)"

fun strings_Compare :: "string \<Rightarrow> string \<Rightarrow> int" where
  "strings_Compare [] [] = 0"
| "strings_Compare [] (b # bs) = - 1"
| "strings_Compare (a # as) [] = 1"
| "strings_Compare (a # as) (b # bs) =
     (if (of_char a :: nat) < of_char b then - 1
      else if (of_char b :: nat) < of_char a then 1
      else strings_Compare as bs)"

definition lenPrefix :: nat where
  "lenPrefix = length (CHR 0x09 # ''2020/03/04 12:13:14'')"

definition notDigit :: "char \<Rightarrow> bool" where
  "notDigit c = ((of_char c :: nat) < of_char (CHR ''0'') \<or> (of_char c :: nat) > of_char (CHR ''9''))"

text \<open>
  Lines 558 to 600. The result is the returned flag and the detector's state after the
  call. A send on \<open>timeChan\<close> appends to the list of stamps sent; that a send waits for
  room in the channel is not modelled.
\<close>

definition historicalUpdateRequired :: "P4DMetrics \<Rightarrow> string \<Rightarrow> bool \<times> P4DMetrics" where
  "historicalUpdateRequired p line =
     (if \<not> historical p then (False, p)
      else if length line < lenPrefix then (False, p)
      else if line ! 0 \<noteq> CHR 0x09 \<or> line ! 5 \<noteq> CHR ''/'' \<or> line ! 8 \<noteq> CHR ''/'' \<or>
              line ! 11 \<noteq> CHR '' '' \<or> line ! 14 \<noteq> CHR '':'' \<or> line ! 17 \<noteq> CHR '':''
      then (False, p)
      else if list_ex (\<lambda>i. notDigit (line ! i)) [1, 2, 3, 4, 6, 7, 9, 10, 12, 13, 15, 16, 18, 19]
      then (False, p)
      else if length (latestStartCmdBuf p) = 0
      then (False, p\<lparr> latestStartCmdBuf := take lenPrefix line,
                      timeLatestStartCmd := time_Parse (drop 1 (take lenPrefix line)) \<rparr>)
      else if length (latestStartCmdBuf p) > 0 \<and> latestStartCmdBuf p = take lenPrefix line
      then (False, p)
      else if strings_Compare (take lenPrefix line) (latestStartCmdBuf p) \<le> 0 then (False, p)
      else (let dt = time_Parse (drop 1 (take lenPrefix line));
                p1 = (if time_Sub dt (timeLatestStartCmd p) \<ge> 3 * Second
                      then p\<lparr> timeChan := timeChan p @ [dt] \<rparr> else p)
            in if time_Sub dt (timeLatestStartCmd p1) \<ge> UpdateInterval (config p1)
               then (True, p1\<lparr> timeLatestStartCmd := dt, latestStartCmdBuf := take lenPrefix line \<rparr>)
               else (False, p1)))"

section \<open>Rendering a snapshot\<close>

text \<open>
  \<open>fmt.Sprintf\<close> with the verbs this file uses. \<open>%d\<close> prints a signed decimal.
  \<open>%.Nf\<close> prints the value rounded to N decimals (ties to even); on the exact numbers
  of the model this is the text Go prints for a finite value.
\<close>

definition digitChar :: "nat \<Rightarrow> char" where
  "digitChar n = ''0123456789'' ! n"

function decimal :: "nat \<Rightarrow> string" where
  "decimal n = (if n < 10 then [digitChar n] else decimal (n div 10) @ [digitChar (n mod 10)])"
  by pat_completeness auto
termination
  by (relation "measure id") auto

declare decimal.simps [simp del]

definition fmt_d :: "int \<Rightarrow> string" where
  "fmt_d i = (if i < 0 then CHR ''-'' # decimal (nat (- i)) else decimal (nat i))"

definition roundHalfEven :: "real \<Rightarrow> int" where
  "roundHalfEven r =
     (let f = \<lfloor>r\<rfloor>; d = r - of_int f
      in if d < 1 / 2 then f else if d > 1 / 2 then f + 1 else if even f then f else f + 1)"

definition zeroPad :: "nat \<Rightarrow> string \<Rightarrow> string" where
  "zeroPad n ds = replicate (n - length ds) (CHR ''0'') @ ds"

definition fmt_f :: "nat \<Rightarrow> float64 \<Rightarrow> string" where
  "fmt_f prec x =
     (let scaled = nat (roundHalfEven (\<bar>x\<bar> * 10 ^ prec))
      in (if x < 0 then ''-'' else []) @ decimal (scaled div 10 ^ prec) @ ''.''
         @ zeroPad prec (decimal (scaled mod 10 ^ prec)))"

type_synonym labelStruct = "string \<times> string"

definition newline :: char where
  "newline = CHR 0x0A"

definition printMetricHeader :: "bool \<Rightarrow> string \<Rightarrow> string \<Rightarrow> string \<Rightarrow> string" where
  "printMetricHeader hist name help metricType =
     (if \<not> hist
      then ''# HELP '' @ name @ '' '' @ help @ [newline] @ ''# TYPE '' @ name @ '' '' @ metricType
           @ [newline]
      else [])"

fun strings_Join :: "string list \<Rightarrow> string \<Rightarrow> string" where
  "strings_Join [] sep = []"
| "strings_Join [x] sep = x"
| "strings_Join (x # y # zs) sep = x @ sep @ strings_Join (y # zs) sep"

definition formatLabels :: "bool \<Rightarrow> string \<Rightarrow> labelStruct list \<Rightarrow> string" where
  "formatLabels hist mname labels =
     (let nonBlankLabels =
            map (\<lambda>(n, v). if \<not> hist then (n, [CHR 0x22] @ v @ [CHR 0x22]) else (n, v))
              (filter (\<lambda>(n, v). v \<noteq> []) labels);
          vals = map (\<lambda>(n, v). n @ ''='' @ v) nonBlankLabels
      in if hist
         then (let labelStr = strings_Join vals '';''
               in if length labelStr > 0 then mname @ '';'' @ labelStr else mname)
         else mname @ ''{'' @ strings_Join vals '','' @ ''}'')"

definition formatMetric :: "bool \<Rightarrow> Time \<Rightarrow> string \<Rightarrow> labelStruct list \<Rightarrow> string \<Rightarrow> string" where
  "formatMetric hist latest mname labels metricVal =
     (if hist
      then formatLabels hist mname labels @ '' '' @ metricVal @ '' '' @ fmt_d latest @ [newline]
      else formatLabels hist mname labels @ '' '' @ metricVal @ [newline])"

definition printMetric :: "bool \<Rightarrow> Time \<Rightarrow> string \<Rightarrow> labelStruct list \<Rightarrow> string \<Rightarrow> string" where
  "printMetric hist latest mname labels metricVal =
     concat (map (\<lambda>c. if c = CHR 0x5C then [c, c] else [c])
       (formatMetric hist latest mname labels metricVal))"

text \<open>
  What a snapshot reads from outside the aggregator: the parser's count of pending
  commands and the process's CPU times (\<open>getCPUStats\<close>). Both are code of the
  repository that is not among the sources, so a snapshot takes them as given.
\<close>

record probes =
  CmdsPendingCount :: int
  userCPU :: float64
  systemCPU :: float64

text \<open>
  A metric family of \<open>getCumulativeMetrics\<close>: the name set in \<open>mname\<close>, the header's
  help text and type, and one (labels, value text) pair for every \<open>printMetric\<close> call
  made under that name, in the order of the calls.
\<close>

record family =
  fname :: string
  fhelp :: string
  ftype :: string
  fsamples :: "(labelStruct list \<times> string) list"

definition renderFamily :: "bool \<Rightarrow> Time \<Rightarrow> family \<Rightarrow> string" where
  "renderFamily hist latest f =
     printMetricHeader hist (fname f) (fhelp f) (ftype f)
     @ concat (map (\<lambda>(labels, v). printMetric hist latest (fname f) labels v) (fsamples f))"

definition fixedLabels :: "Config \<Rightarrow> labelStruct list" where
  "fixedLabels cfg = [(''serverid'', ServerID cfg), (''sdpinst'', SDPInstance cfg)]"

definition scalarFamily :: "Config \<Rightarrow> string \<Rightarrow> string \<Rightarrow> string \<Rightarrow> string \<Rightarrow> family" where
  "scalarFamily cfg name help typ v =
     \<lparr> fname = name, fhelp = help, ftype = typ, fsamples = [(fixedLabels cfg, v)] \<rparr>"

definition countFamily ::
  "Config \<Rightarrow> string \<Rightarrow> string \<Rightarrow> string \<Rightarrow> string \<Rightarrow> int64 gomap \<Rightarrow> family" where
  "countFamily cfg name help typ label m =
     \<lparr> fname = name, fhelp = help, ftype = typ,
       fsamples = map (\<lambda>(k, count). (fixedLabels cfg @ [(label, k)], fmt_d (sint count))) m \<rparr>"

definition secondsFamily ::
  "Config \<Rightarrow> string \<Rightarrow> string \<Rightarrow> string \<Rightarrow> string \<Rightarrow> float64 gomap \<Rightarrow> family" where
  "secondsFamily cfg name help typ label m =
     \<lparr> fname = name, fhelp = help, ftype = typ,
       fsamples = map (\<lambda>(k, lapse). (fixedLabels cfg @ [(label, k)], fmt_f 3 lapse)) m \<rparr>"

definition detailCountFamily ::
  "Config \<Rightarrow> string \<Rightarrow> string \<Rightarrow> string \<Rightarrow> (string \<times> int64 gomap) list \<Rightarrow> family" where
  "detailCountFamily cfg name help typ m =
     \<lparr> fname = name, fhelp = help, ftype = typ,
       fsamples = concat (map (\<lambda>(user, userMap).
         map (\<lambda>(cmd, count).
           (fixedLabels cfg @ [(''user'', user)] @ [(''cmd'', cmd)], fmt_d (sint count))) userMap) m) \<rparr>"

definition detailSecondsFamily ::
  "Config \<Rightarrow> string \<Rightarrow> string \<Rightarrow> string \<Rightarrow> (string \<times> float64 gomap) list \<Rightarrow> family" where
  "detailSecondsFamily cfg name help typ m =
     \<lparr> fname = name, fhelp = help, ftype = typ,
       fsamples = concat (map (\<lambda>(user, userMap).
         map (\<lambda>(cmd, lapse).
           (fixedLabels cfg @ [(''user'', user)] @ [(''cmd'', cmd)], fmt_f 3 lapse)) userMap) m) \<rparr>"

text \<open>Lines 184 to 414, block by block.\<close>

definition leadingFamilies :: "P4DMetrics \<Rightarrow> probes \<Rightarrow> family list" where
  "leadingFamilies p pr =
     (let cfg = config p in
      [ scalarFamily cfg ''p4_prom_log_lines_read'' ''A count of log lines read'' ''gauge''
          (fmt_d (sint (linesRead p))),
        scalarFamily cfg ''p4_prom_cmds_processed'' ''A count of all cmds processed'' ''counter''
          (fmt_d (sint (cmdsProcessed p))),
        scalarFamily cfg ''p4_prom_cmds_pending''
          ''A count of all current cmds (not completed)'' ''gauge''
          (fmt_d (CmdsPendingCount pr)),
        scalarFamily cfg ''p4_cmd_running''
          ''The number of running commands at any one time'' ''gauge''
          (fmt_d (sint (cmdRunning p))),
        scalarFamily cfg ''p4_prom_cpu_user'' ''User CPU used by p4prometheus'' ''counter''
          (fmt_f 6 (userCPU pr)),
        scalarFamily cfg ''p4_prom_cpu_system'' ''System CPU used by p4prometheus'' ''counter''
          (fmt_f 6 (systemCPU pr)) ])"

definition syncFamilies :: "P4DMetrics \<Rightarrow> family list" where
  "syncFamilies p =
     (let cfg = config p in
      [ scalarFamily cfg ''p4_sync_files_added''
          ''The number of files added to workspaces by syncs'' ''gauge''
          (fmt_d (sint (syncFilesAdded p))),
        scalarFamily cfg ''p4_sync_files_updated''
          ''The number of files updated in workspaces by syncs'' ''gauge''
          (fmt_d (sint (syncFilesUpdated p))),
        scalarFamily cfg ''p4_sync_files_deleted''
          ''The number of files deleted in workspaces by syncs'' ''gauge''
          (fmt_d (sint (syncFilesDeleted p))),
        scalarFamily cfg ''p4_sync_bytes_added''
          ''The number of bytes added to workspaces by syncs'' ''gauge''
          (fmt_d (sint (syncBytesAdded p))),
        scalarFamily cfg ''p4_sync_bytes_updated''
          ''The number of bytes updated in workspaces by syncs'' ''gauge''
          (fmt_d (sint (syncBytesUpdated p))) ])"

definition cmdFamilies :: "P4DMetrics \<Rightarrow> family list" where
  "cmdFamilies p =
     (let cfg = config p in
      [ countFamily cfg ''p4_cmd_counter'' ''A count of completed p4 cmds (by cmd)'' ''gauge''
          ''cmd'' (cmdCounter p),
        secondsFamily cfg ''p4_cmd_cumulative_seconds'' ''The total in seconds (by cmd)'' ''gauge''
          ''cmd'' (cmdCumulative p),
        secondsFamily cfg ''p4_cmd_cpu_user_cumulative_seconds''
          ''The total in user CPU seconds (by cmd)'' ''gauge'' ''cmd'' (cmduCPUCumulative p),
        secondsFamily cfg ''p4_cmd_cpu_system_cumulative_seconds''
          ''The total in system CPU seconds (by cmd)'' ''gauge'' ''cmd'' (cmdsCPUCumulative p),
        countFamily cfg ''p4_cmd_error_counter'' ''A count of cmd errors (by cmd)'' ''gauge''
          ''cmd'' (cmdErrorCounter p) ])"

definition userFamilies :: "P4DMetrics \<Rightarrow> family list" where
  "userFamilies p =
     (let cfg = config p in
      if OutputCmdsByUser cfg
      then [ countFamily cfg ''p4_cmd_user_counter'' ''A count of completed p4 cmds (by user)''
               ''gauge'' ''user'' (cmdByUserCounter p),
             secondsFamily cfg ''p4_cmd_user_cumulative_seconds''
               ''The total in seconds (by user)'' ''gauge'' ''user'' (cmdByUserCumulative p) ]
      else [])"

definition ipFamilies :: "P4DMetrics \<Rightarrow> family list" where
  "ipFamilies p =
     (let cfg = config p in
      if OutputCmdsByIP cfg
      then [ countFamily cfg ''p4_cmd_ip_counter'' ''A count of completed p4 cmds (by IP)''
               ''gauge'' ''ip'' (cmdByIPCounter p),
             secondsFamily cfg ''p4_cmd_ip_cumulative_seconds''
               ''The total in seconds (by IP)'' ''gauge'' ''ip'' (cmdByIPCumulative p) ]
      else [])"

definition userDetailFamilies :: "P4DMetrics \<Rightarrow> family list" where
  "userDetailFamilies p =
     (let cfg = config p in
      if OutputCmdsByUserRegex cfg \<noteq> []
      then [ detailCountFamily cfg ''p4_cmd_user_detail_counter''
               ''A count of completed p4 cmds (by user and cmd)'' ''gauge''
               (cmdByUserDetailCounter p),
             detailSecondsFamily cfg ''p4_cmd_user_detail_cumulative_seconds''
               ''The total in seconds (by user and cmd)'' ''gauge''
               (cmdByUserDetailCumulative p) ]
      else [])"

definition replicaProgramFamilies :: "P4DMetrics \<Rightarrow> family list" where
  "replicaProgramFamilies p =
     (let cfg = config p in
      [ countFamily cfg ''p4_cmd_replica_counter''
          ''A count of completed p4 cmds (by broker/replica/proxy)'' ''gauge''
          ''replica'' (cmdByReplicaCounter p),
        secondsFamily cfg ''p4_cmd_replica_cumulative_seconds''
          ''The total in seconds (by broker/replica/proxy)'' ''gauge''
          ''replica'' (cmdByReplicaCumulative p),
        countFamily cfg ''p4_cmd_program_counter''
          ''A count of completed p4 cmds (by program)'' ''gauge''
          ''program'' (cmdByProgramCounter p),
        secondsFamily cfg ''p4_cmd_program_cumulative_seconds''
          ''The total in seconds (by program)'' ''gauge''
          ''program'' (cmdByProgramCumulative p) ])"

definition lockFamilies :: "P4DMetrics \<Rightarrow> family list" where
  "lockFamilies p =
     (let cfg = config p in
      [ secondsFamily cfg ''p4_total_read_wait_seconds''
          ''The total waiting for read locks in seconds (by table)'' ''gauge''
          ''table'' (totalReadWait p),
        secondsFamily cfg ''p4_total_read_held_seconds''
          ''The total read locks held in seconds (by table)'' ''gauge''
          ''table'' (totalReadHeld p),
        secondsFamily cfg ''p4_total_write_wait_seconds''
          ''The total waiting for write locks in seconds (by table)'' ''gauge''
          ''table'' (totalWriteWait p),
        secondsFamily cfg ''p4_total_write_held_seconds''
          ''The total write locks held in seconds (by table)'' ''gauge''
          ''table'' (totalWriteHeld p) ])"

definition triggerFamilies :: "P4DMetrics \<Rightarrow> family list" where
  "triggerFamilies p =
     (if length (totalTriggerLapse p) > 0
      then [ secondsFamily (config p) ''p4_total_trigger_lapse_seconds''
               ''The total lapse time for triggers in seconds (by trigger)'' ''gauge''
               ''trigger'' (totalTriggerLapse p) ]
      else [])"

definition families :: "P4DMetrics \<Rightarrow> probes \<Rightarrow> family list" where
  "families p pr =
     leadingFamilies p pr @ syncFamilies p @ cmdFamilies p @ userFamilies p @ ipFamilies p
     @ userDetailFamilies p @ replicaProgramFamilies p @ lockFamilies p @ triggerFamilies p"

definition getCumulativeMetrics :: "P4DMetrics \<Rightarrow> probes \<Rightarrow> string" where
  "getCumulativeMetrics p pr =
     concat (map (renderFamily (historical p) (timeLatestStartCmd p)) (families p pr))"

section \<open>The event loop of ProcessEvents\<close>

text \<open>
  One iteration of the \<open>select\<close> loop handles one event: the context is done, the
  ticker fired, the parser delivered a command or closed its channel, the line source
  delivered a line or was closed. The events that lead to a snapshot carry what the
  snapshot reads from outside. Which ready case \<open>select\<close> picks, and waiting on a full
  channel, are not modelled: the loop is run on the sequence of events it handled.
\<close>

datatype event =
    CtxDone
  | Tick probes
  | CmdArrive Command
  | CmdClosed probes
  | LineArrive string probes
  | LinesClosed

datatype status = Running | Stopped | Blocked | Panicked panic

text \<open>
  The loop's variables. \<open>fpLinesChan\<close> is \<open>None\<close> once the variable is nil and holds the
  lines forwarded so far otherwise; \<open>fpLinesCloses\<close> counts the calls of \<open>close\<close> on it.
  \<open>metricsChan\<close> and \<open>cmdsOutChan\<close> hold what was sent on them, oldest first.
\<close>

record engine =
  p4m :: P4DMetrics
  needCmdChan :: bool
  fpLinesChan :: "string list option"
  fpLinesCloses :: nat
  metricsChan :: "string list"
  metricsChanClosed :: bool
  cmdsOutChan :: "Command list"
  cmdsOutChanClosed :: bool
  status :: status

text \<open>
  Lines 604 to 623. \<open>time.NewTicker\<close> panics on an interval that is not positive.
\<close>

definition ProcessEvents :: "P4DMetrics \<Rightarrow> bool \<Rightarrow> engine" where
  "ProcessEvents p need =
     \<lparr> p4m = (if historical p then p\<lparr> timeChan := [] \<rparr> else p),
       needCmdChan = need, fpLinesChan = Some [], fpLinesCloses = 0,
       metricsChan = [], metricsChanClosed = False,
       cmdsOutChan = [], cmdsOutChanClosed = False,
       status = (if UpdateInterval (config p) \<le> 0 then Panicked NonPositiveTickerPanic
                 else Running) \<rparr>"

text \<open>Leaving the goroutine runs the deferred closes of the two output channels.\<close>

definition returnLoop :: "engine \<Rightarrow> engine" where
  "returnLoop s =
     s\<lparr> metricsChanClosed := True, cmdsOutChanClosed := needCmdChan s, status := Stopped \<rparr>"

text \<open>
  Lines 629 to 676. A loop that has returned, panicked or is stuck handles no event.
  A send on the nil forwarding queue never returns; a panic ends the process.
\<close>

definition step :: "extern \<Rightarrow> engine \<Rightarrow> event \<Rightarrow> engine" where
  "step ext s ev =
     (if status s \<noteq> Running then s
      else case ev of
        CtxDone \<Rightarrow> returnLoop s
      | Tick pr \<Rightarrow>
          (if \<not> historical (p4m s)
           then s\<lparr> metricsChan := metricsChan s @ [getCumulativeMetrics (p4m s) pr],
                   p4m := resetToZero (p4m s) \<rparr>
           else s)
      | CmdArrive cmd \<Rightarrow>
          (case publishEvent ext ((p4m s)\<lparr> cmdsProcessed := cmdsProcessed (p4m s) + 1 \<rparr>) cmd of
             Inl e \<Rightarrow> s\<lparr> status := Panicked e \<rparr>
           | Inr p' \<Rightarrow>
               s\<lparr> p4m := p',
                  cmdsOutChan := (if needCmdChan s then cmdsOutChan s @ [cmd] else cmdsOutChan s) \<rparr>)
      | CmdClosed pr \<Rightarrow>
          returnLoop (s\<lparr> metricsChan := metricsChan s @ [getCumulativeMetrics (p4m s) pr] \<rparr>)
      | LineArrive line pr \<Rightarrow>
          (let p1 = (p4m s)\<lparr> linesRead := linesRead (p4m s) + 1 \<rparr>
           in case fpLinesChan s of
                None \<Rightarrow> s\<lparr> p4m := p1, status := Blocked \<rparr>
              | Some q \<Rightarrow>
                  (let r = historicalUpdateRequired p1 line;
                       s1 = s\<lparr> p4m := snd r, fpLinesChan := Some (q @ [line]) \<rparr>
                   in if historical p1 \<and> fst r
                      then s1\<lparr> metricsChan := metricsChan s1 @ [getCumulativeMetrics (snd r) pr] \<rparr>
                      else s1))
      | LinesClosed \<Rightarrow>
          (if fpLinesChan s \<noteq> None
           then s\<lparr> fpLinesCloses := fpLinesCloses s + 1, fpLinesChan := None \<rparr>
           else s))"

primrec run :: "extern \<Rightarrow> engine \<Rightarrow> event list \<Rightarrow> engine" where
  "run ext s [] = s"
| "run ext s (ev # evs) = run ext (step ext s ev) evs"

definition start :: "Config \<Rightarrow> bool \<Rightarrow> bool \<Rightarrow> engine" where
  "start cfg hist need = ProcessEvents (NewP4DMetricsLogParser cfg hist) need"

section \<open>Sample inputs\<close>

text \<open>
  A library environment for concrete runs: lower-casing of ASCII letters, and a compiler
  that knows the one expression \<open>(.*)\<close>, which matches every name.
\<close>

definition sampleExt :: extern where
  "sampleExt =
     \<lparr> ToLower = map (\<lambda>c. if byteIn c 0x41 0x5A then char_of (of_char c + (32::nat)) else c),
       MustCompile = (\<lambda>re. if re = ''(.*)'' then Some (\<lambda>u. True) else None) \<rparr>"

definition sampleConfig :: Config where
  "sampleConfig =
     \<lparr> ServerID = ''srv'', SDPInstance = ''1'', UpdateInterval = 60 * Second,
       OutputCmdsByUser = True, OutputCmdsByUserRegex = ''.*'', OutputCmdsByIP = True,
       CaseSensitiveServer = False \<rparr>"

definition sampleProbes :: probes where
  "sampleProbes = \<lparr> CmdsPendingCount = 2, userCPU = 1 / 4, systemCPU = 1 / 8 \<rparr>"

definition sampleTables :: "Table list" where
  "sampleTables =
     [ \<lparr> TableName = ''db.rev'', TotalReadWait = 500, TotalReadHeld = 1500,
         TotalWriteWait = 250, TotalWriteHeld = 2000, TriggerLapse = 0 \<rparr>,
       \<lparr> TableName = ''trigger_mytrig'', TotalReadWait = 0, TotalReadHeld = 0,
         TotalWriteWait = 0, TotalWriteHeld = 0, TriggerLapse = 2 \<rparr> ]"

definition sampleCommand :: Command where
  "sampleCommand =
     \<lparr> Cmd = ''user-sync'', User = ''Alice'', IP = ''relay1/10.0.0.5'',
       App = ''p4 cli (brokered)'', CompletedLapse = 3 / 2, UCpu = 1500, SCpu = 250,
       Running = 3, NetFilesAdded = 4, NetFilesUpdated = 5, NetFilesDeleted = 6,
       NetBytesAdded = 7, NetBytesUpdated = 8, CmdError = True, Tables = sampleTables \<rparr>"

section \<open>Vocabulary of the statements\<close>

text \<open>The state of a fresh aggregator in live mode, used for concrete runs.\<close>

definition sampleState :: P4DMetrics where
  "sampleState = NewP4DMetricsLogParser sampleConfig False"

text \<open>
  A table entry counts as a trigger exactly when \<open>publishEvent\<close> takes its first branch;
  \<open>trigAdd\<close> and \<open>lockAdd\<close> are the additions the two branches make.
\<close>

definition isTriggerEntry :: "Table \<Rightarrow> bool" where
  "isTriggerEntry t = isTriggerName (TableName t)"

definition trigAdd :: "Table \<Rightarrow> float64 gomap \<Rightarrow> float64 gomap" where
  "trigAdd t = m_add (drop (length triggerPrefix) (TableName t)) (TriggerLapse t)"

definition lockAdd :: "(Table \<Rightarrow> int64) \<Rightarrow> Table \<Rightarrow> float64 gomap \<Rightarrow> float64 gomap" where
  "lockAdd field t = m_add (TableName t) (float64_of (field t) / 1000)"

definition lockEntries :: "Command \<Rightarrow> Table list" where
  "lockEntries cmd = filter (\<lambda>t. \<not> isTriggerEntry t) (Tables cmd)"

definition triggerEntries :: "Command \<Rightarrow> Table list" where
  "triggerEntries cmd = filter isTriggerEntry (Tables cmd)"

text \<open>A command whose only table entry is named by the bare prefix.\<close>

definition barePrefixCommand :: Command where
  "barePrefixCommand =
     sampleCommand\<lparr> Tables :=
       [ \<lparr> TableName = ''trigger_'', TotalReadWait = 500, TotalReadHeld = 1500,
           TotalWriteWait = 250, TotalWriteHeld = 2000, TriggerLapse = 2 \<rparr> ] \<rparr>"

text \<open>The sample command sent without a replica prefix, and with another program name.\<close>

definition directCommand :: Command where
  "directCommand = sampleCommand\<lparr> IP := ''10.0.0.5'' \<rparr>"

definition leadingSlashCommand :: Command where
  "leadingSlashCommand = sampleCommand\<lparr> IP := ''/10.0.0.5'' \<rparr>"

text \<open>
  The IP dimension as the specification words it for an address with a slash: the
  text after the first slash.
\<close>

definition afterFirstSlash :: "string \<Rightarrow> string" where
  "afterFirstSlash s = drop 1 (dropWhile (\<lambda>c. c \<noteq> CHR ''/'') s)"

definition midBrokeredCommand :: Command where
  "midBrokeredCommand = sampleCommand\<lparr> App := ''p4 (brokered) x'' \<rparr>"

text \<open>
  The program key as the specification words it: the suffix \<open> (brokered)\<close> is cut off
  the end of the name when the name ends with it, then the characters outside the
  allow-list are replaced.
\<close>

definition stripSuffix :: "string \<Rightarrow> string \<Rightarrow> string" where
  "stripSuffix s suf =
     (if length suf \<le> length s \<and> drop (length s - length suf) s = suf
      then take (length s - length suf) s else s)"

definition programKey_spec :: "string \<Rightarrow> string" where
  "programKey_spec app = NotLabelValueRE_ReplaceAllString (stripSuffix app brokered)"

definition isASCII :: "char \<Rightarrow> bool" where
  "isASCII c = ((of_char c :: nat) < 0x80)"

text \<open>
  A line is stamp-prefixed, in the specification's words, when it has at least twenty
  bytes and they read: tab, four digits, slash, two digits, slash, two digits, space,
  two digits, colon, two digits, colon, two digits.
\<close>

definition isDigitByte :: "char \<Rightarrow> bool" where
  "isDigitByte c =
     ((of_char (CHR ''0'') :: nat) \<le> of_char c \<and> (of_char c :: nat) \<le> of_char (CHR ''9''))"

definition stampPrefixed :: "string \<Rightarrow> bool" where
  "stampPrefixed line =
     (20 \<le> length line \<and> line ! 0 = CHR 0x09 \<and>
      isDigitByte (line ! 1) \<and> isDigitByte (line ! 2) \<and> isDigitByte (line ! 3) \<and>
      isDigitByte (line ! 4) \<and> line ! 5 = CHR ''/'' \<and>
      isDigitByte (line ! 6) \<and> isDigitByte (line ! 7) \<and> line ! 8 = CHR ''/'' \<and>
      isDigitByte (line ! 9) \<and> isDigitByte (line ! 10) \<and> line ! 11 = CHR '' '' \<and>
      isDigitByte (line ! 12) \<and> isDigitByte (line ! 13) \<and> line ! 14 = CHR '':'' \<and>
      isDigitByte (line ! 15) \<and> isDigitByte (line ! 16) \<and> line ! 17 = CHR '':'' \<and>
      isDigitByte (line ! 18) \<and> isDigitByte (line ! 19))"

definition stampOf :: "string \<Rightarrow> Time" where
  "stampOf line = time_Parse (drop 1 (take lenPrefix line))"

text \<open>The three lines of the example, and a fresh detector with a one-minute interval.\<close>

definition line1 :: string where
  "line1 = CHR 0x09 # ''2024/01/01 00:00:00 pid 4242 alice@ws 10.0.0.5 [p4] user-sync''"

definition line2 :: string where
  "line2 = CHR 0x09 # ''2024/01/01 00:00:02 pid 4243 bob@ws 10.0.0.6 [p4] user-have''"

definition line3 :: string where
  "line3 = CHR 0x09 # ''2024/01/01 00:05:00''"

definition line4 :: string where
  "line4 = CHR 0x09 # ''2024/01/01 00:05:30''"

definition minuteConfig :: Config where
  "minuteConfig = sampleConfig\<lparr> UpdateInterval := 60 * Second \<rparr>"

definition detector0 :: P4DMetrics where
  "detector0 = NewP4DMetricsLogParser minuteConfig True"

definition detector1 :: P4DMetrics where
  "detector1 = snd (historicalUpdateRequired detector0 line1)"

definition detector2 :: P4DMetrics where
  "detector2 = snd (historicalUpdateRequired detector1 line2)"

definition detector3 :: P4DMetrics where
  "detector3 = snd (historicalUpdateRequired detector2 line3)"

text \<open>A detector that holds the third line's prefix and time and has sent that time.\<close>

definition detectorAtFive :: P4DMetrics where
  "detectorAtFive =
     detector0\<lparr> latestStartCmdBuf := line3, timeLatestStartCmd := 1704067500,
                timeChan := [1704067500] \<rparr>"

text \<open>
  A map is all zero when every key it holds reads zero. \<open>zeroKeys\<close> is the loop
  \<open>for t := range keys { m[t] = 0 }\<close>. The four lock maps agree when they hold the same
  keys, and so do the two detail maps.
\<close>

definition allZero :: "'v::zero gomap \<Rightarrow> bool" where
  "allZero m = list_all (\<lambda>k. m_load m k = 0) (m_keys m)"

definition allZeroDetail :: "(string \<times> int64 gomap) list \<Rightarrow> bool" where
  "allZeroDetail d = list_all (\<lambda>u. allZero (d_load d u)) (m_keys d)"

definition zeroKeys :: "string list \<Rightarrow> 'v::zero gomap \<Rightarrow> 'v gomap" where
  "zeroKeys ks m = fold (\<lambda>t m'. m_store t 0 m') ks m"

definition lockKeysAgree :: "P4DMetrics \<Rightarrow> bool" where
  "lockKeysAgree p =
     (set (m_keys (totalReadWait p)) = set (m_keys (totalReadHeld p)) \<and>
      set (m_keys (totalWriteWait p)) = set (m_keys (totalReadHeld p)) \<and>
      set (m_keys (totalWriteHeld p)) = set (m_keys (totalReadHeld p)))"

definition detailKeysAgree :: "P4DMetrics \<Rightarrow> bool" where
  "detailKeysAgree p =
     (set (m_keys (cmdByUserDetailCounter p)) = set (m_keys (cmdByUserDetailCumulative p)))"

definition keysAgree :: "P4DMetrics \<Rightarrow> bool" where
  "keysAgree p = (lockKeysAgree p \<and> detailKeysAgree p)"

text \<open>A short history in historical mode: a line, a command, then the line source closes.\<close>

definition sampleHistory :: "event list" where
  "sampleHistory = [LineArrive line1 sampleProbes, CmdArrive sampleCommand, LinesClosed]"

text \<open>The forwarding queue is open and never closed, or nil and closed once.\<close>

definition queueOnce :: "engine \<Rightarrow> bool" where
  "queueOnce s =
     (fpLinesChan s \<noteq> None \<and> fpLinesCloses s = 0 \<or> fpLinesChan s = None \<and> fpLinesCloses s = 1)"

text \<open>
  The sync counters that follow the six leading families of a snapshot, by name.
\<close>

definition syncBlock :: "string list \<Rightarrow> string list" where
  "syncBlock names = takeWhile (\<lambda>n. take 8 n = ''p4_sync_'') (drop 6 names)"

text \<open>The aggregator after the sample command.\<close>

definition stateAfterSample :: P4DMetrics where
  "stateAfterSample = projr (publishEvent sampleExt sampleState sampleCommand)"

text \<open>
  Shapes of a rendered value: a plain decimal is an optional minus sign and digits; a
  value with \<open>n\<close> decimals is a plain decimal, a point and exactly \<open>n\<close> digits. The
  families whose values are integers, and the two that report the CPU time of the
  process itself.
\<close>

definition isDigitStr :: "string \<Rightarrow> bool" where
  "isDigitStr s = (s \<noteq> [] \<and> list_all isDigitByte s)"

definition plainDecimal :: "string \<Rightarrow> bool" where
  "plainDecimal s =
     (case s of [] \<Rightarrow> False | c # t \<Rightarrow> if c = CHR ''-'' then isDigitStr t else isDigitStr s)"

definition fixedDecimals :: "nat \<Rightarrow> string \<Rightarrow> bool" where
  "fixedDecimals n s =
     (let ip = takeWhile (\<lambda>c. c \<noteq> CHR ''.'') s; rest = dropWhile (\<lambda>c. c \<noteq> CHR ''.'') s
      in plainDecimal ip \<and> rest \<noteq> [] \<and> length (tl rest) = n \<and> list_all isDigitByte (tl rest))"

definition integerFamilies :: "string list" where
  "integerFamilies =
     [''p4_prom_log_lines_read'', ''p4_prom_cmds_processed'', ''p4_prom_cmds_pending'',
      ''p4_cmd_running'', ''p4_sync_files_added'', ''p4_sync_files_updated'',
      ''p4_sync_files_deleted'', ''p4_sync_bytes_added'', ''p4_sync_bytes_updated'',
      ''p4_cmd_counter'', ''p4_cmd_error_counter'', ''p4_cmd_user_counter'',
      ''p4_cmd_ip_counter'', ''p4_cmd_user_detail_counter'', ''p4_cmd_replica_counter'',
      ''p4_cmd_program_counter'']"

definition processCpuFamilies :: "string list" where
  "processCpuFamilies = [''p4_prom_cpu_user'', ''p4_prom_cpu_system'']"

definition valueShape :: "string \<Rightarrow> string \<Rightarrow> bool" where
  "valueShape name v =
     (if name \<in> set integerFamilies then plainDecimal v
      else if name \<in> set processCpuFamilies then fixedDecimals 6 v
      else fixedDecimals 3 v)"

definition goodFamily :: "family \<Rightarrow> bool" where
  "goodFamily f = list_all (\<lambda>s. valueShape (fname f) (snd s)) (fsamples f)"

definition secondsFamilies :: "string list" where
  "secondsFamilies =
     [''p4_cmd_cumulative_seconds'', ''p4_cmd_cpu_user_cumulative_seconds'',
      ''p4_cmd_cpu_system_cumulative_seconds'', ''p4_cmd_user_cumulative_seconds'',
      ''p4_cmd_ip_cumulative_seconds'', ''p4_cmd_user_detail_cumulative_seconds'',
      ''p4_cmd_replica_cumulative_seconds'', ''p4_cmd_program_cumulative_seconds'',
      ''p4_total_read_wait_seconds'', ''p4_total_read_held_seconds'',
      ''p4_total_write_wait_seconds'', ''p4_total_write_held_seconds'',
      ''p4_total_trigger_lapse_seconds'']"

text \<open>The family of per-command user CPU seconds in a snapshot after the sample command.\<close>

definition cpuUserFamily :: family where
  "cpuUserFamily =
     secondsFamily (config stateAfterSample) ''p4_cmd_cpu_user_cumulative_seconds''
       ''The total in user CPU seconds (by cmd)'' ''gauge'' ''cmd''
       (cmduCPUCumulative stateAfterSample)"

text \<open>
  The aggregates by class. \<open>countersZero\<close> says that every aggregate \<open>resetToZero\<close>
  writes is at zero; \<open>counters\<close> lists those aggregates but the count of lines read;
  \<open>cumulatives\<close> lists the totals in seconds and the count of commands processed.
\<close>

definition countersZero :: "P4DMetrics \<Rightarrow> bool" where
  "countersZero p =
     (allZero (cmdCounter p) \<and> allZero (cmdErrorCounter p) \<and>
      allZero (cmdByUserCounter p) \<and> allZero (cmdByIPCounter p) \<and>
      allZero (cmdByReplicaCounter p) \<and> allZero (cmdByProgramCounter p) \<and>
      allZeroDetail (cmdByUserDetailCounter p) \<and>
      cmdRunning p = 0 \<and> linesRead p = 0 \<and>
      syncFilesAdded p = 0 \<and> syncFilesUpdated p = 0 \<and> syncFilesDeleted p = 0 \<and>
      syncBytesAdded p = 0 \<and> syncBytesUpdated p = 0 \<and>
      allZero (totalReadWait p) \<and> allZero (totalReadHeld p) \<and>
      allZero (totalWriteWait p) \<and> allZero (totalWriteHeld p) \<and>
      allZero (totalTriggerLapse p))"

definition counters ::
  "P4DMetrics \<Rightarrow>
     (int64 gomap \<times> int64 gomap \<times> int64 gomap \<times> int64 gomap \<times> int64 gomap \<times> int64 gomap)
     \<times> (string \<times> int64 gomap) list
     \<times> (int64 \<times> int64 \<times> int64 \<times> int64 \<times> int64 \<times> int64)
     \<times> (float64 gomap \<times> float64 gomap \<times> float64 gomap \<times> float64 gomap \<times> float64 gomap)" where
  "counters p =
     ((cmdCounter p, cmdErrorCounter p, cmdByUserCounter p, cmdByIPCounter p,
       cmdByReplicaCounter p, cmdByProgramCounter p),
      cmdByUserDetailCounter p,
      (cmdRunning p, syncFilesAdded p, syncFilesUpdated p, syncFilesDeleted p,
       syncBytesAdded p, syncBytesUpdated p),
      (totalReadWait p, totalReadHeld p, totalWriteWait p, totalWriteHeld p,
       totalTriggerLapse p))"

definition cumulatives ::
  "P4DMetrics \<Rightarrow>
     (float64 gomap \<times> float64 gomap \<times> float64 gomap \<times> float64 gomap \<times> float64 gomap
        \<times> float64 gomap \<times> float64 gomap)
     \<times> (string \<times> float64 gomap) list \<times> int64" where
  "cumulatives p =
     ((cmdCumulative p, cmduCPUCumulative p, cmdsCPUCumulative p, cmdByUserCumulative p,
       cmdByIPCumulative p, cmdByReplicaCumulative p, cmdByProgramCumulative p),
      cmdByUserDetailCumulative p, cmdsProcessed p)"

text \<open>
  What the arrival of one command adds: \<open>p\<close> is the aggregator before the loop counts
  the command, \<open>p'\<close> the aggregator after \<open>publishEvent\<close>. Every total and every count
  is the old one with the command's share added under the command's key; the gauge of
  running commands takes the command's value; the count of lines read stays.
\<close>

definition commandAdded :: "extern \<Rightarrow> P4DMetrics \<Rightarrow> Command \<Rightarrow> P4DMetrics \<Rightarrow> bool" where
  "commandAdded ext p c p' =
     (cmdsProcessed p' = cmdsProcessed p + 1 \<and>
      cmdCumulative p' = m_add (Cmd c) (CompletedLapse c) (cmdCumulative p) \<and>
      cmduCPUCumulative p' = m_add (Cmd c) (float64_of (UCpu c) / 1000) (cmduCPUCumulative p) \<and>
      cmdsCPUCumulative p' = m_add (Cmd c) (float64_of (SCpu c) / 1000) (cmdsCPUCumulative p) \<and>
      cmdByUserCumulative p' =
        m_add (userName ext p c) (CompletedLapse c) (cmdByUserCumulative p) \<and>
      cmdByIPCumulative p' =
        m_add (fst (splitIP (IP c))) (CompletedLapse c) (cmdByIPCumulative p) \<and>
      cmdByReplicaCumulative p' =
        (if snd (splitIP (IP c)) \<noteq> []
         then m_add (snd (splitIP (IP c))) (CompletedLapse c) (cmdByReplicaCumulative p)
         else cmdByReplicaCumulative p) \<and>
      cmdByProgramCumulative p' =
        m_add (programKey (App c)) (CompletedLapse c) (cmdByProgramCumulative p) \<and>
      (cmdByUserDetailCumulative p' = cmdByUserDetailCumulative p \<and>
         cmdByUserDetailCounter p' = cmdByUserDetailCounter p
       \<or> cmdByUserDetailCumulative p' =
           m_store (userName ext p c)
             (m_add (Cmd c) (CompletedLapse c)
                (d_load (cmdByUserDetailCumulative p) (userName ext p c)))
             (cmdByUserDetailCumulative p) \<and>
         cmdByUserDetailCounter p' =
           m_store (userName ext p c)
             (m_add (Cmd c) 1 (d_load (cmdByUserDetailCounter p) (userName ext p c)))
             (cmdByUserDetailCounter p)) \<and>
      cmdCounter p' = m_add (Cmd c) 1 (cmdCounter p) \<and>
      cmdErrorCounter p' =
        (if CmdError c then m_add (Cmd c) 1 (cmdErrorCounter p) else cmdErrorCounter p) \<and>
      cmdByUserCounter p' = m_add (userName ext p c) 1 (cmdByUserCounter p) \<and>
      cmdByIPCounter p' = m_add (fst (splitIP (IP c))) 1 (cmdByIPCounter p) \<and>
      cmdByReplicaCounter p' =
        (if snd (splitIP (IP c)) \<noteq> []
         then m_add (snd (splitIP (IP c))) 1 (cmdByReplicaCounter p)
         else cmdByReplicaCounter p) \<and>
      cmdByProgramCounter p' = m_add (programKey (App c)) 1 (cmdByProgramCounter p) \<and>
      cmdRunning p' = Command.Running c \<and> linesRead p' = linesRead p \<and>
      syncFilesAdded p' = syncFilesAdded p + NetFilesAdded c \<and>
      syncFilesUpdated p' = syncFilesUpdated p + NetFilesUpdated c \<and>
      syncFilesDeleted p' = syncFilesDeleted p + NetFilesDeleted c \<and>
      syncBytesAdded p' = syncBytesAdded p + NetBytesAdded c \<and>
      syncBytesUpdated p' = syncBytesUpdated p + NetBytesUpdated c \<and>
      totalTriggerLapse p' = fold trigAdd (triggerEntries c) (totalTriggerLapse p) \<and>
      totalReadHeld p' = fold (lockAdd TotalReadHeld) (lockEntries c) (totalReadHeld p) \<and>
      totalReadWait p' = fold (lockAdd TotalReadWait) (lockEntries c) (totalReadWait p) \<and>
      totalWriteHeld p' = fold (lockAdd TotalWriteHeld) (lockEntries c) (totalWriteHeld p) \<and>
      totalWriteWait p' = fold (lockAdd TotalWriteWait) (lockEntries c) (totalWriteWait p))"

text \<open>The live engine and the historical engine after the sample command.\<close>

definition liveAfterSample :: engine where
  "liveAfterSample = run sampleExt (start sampleConfig False True) [CmdArrive sampleCommand]"

definition histAfterSample :: engine where
  "histAfterSample = run sampleExt (start sampleConfig True True) sampleHistory"

section \<open>Lemmas on maps\<close>

lemma m_load_store: "m_load (m_store k v m) k' = (if k' = k then v else m_load m k')"
  by (simp add: m_load_def m_store_def update_conv')

section \<open>What publishEvent does to each field\<close>

lemma publishEvent_InrD:
  assumes "publishEvent ext p cmd = Inr p'"
  obtains p1 where "recordUser ext (recordCmd p cmd) cmd = Inr p1"
    and "p' = recordTables (recordProgram (recordIP p1 cmd) cmd) cmd"
  using assms by (auto simp: publishEvent_def split: sum.splits)

lemma recordUserDetail_frame:
  assumes "recordUserDetail p user cmd = Inr p'"
  shows "config p' = config p \<and> historical p' = historical p \<and>
     timeLatestStartCmd p' = timeLatestStartCmd p \<and> latestStartCmdBuf p' = latestStartCmdBuf p \<and>
     timeChan p' = timeChan p \<and> cmdRunning p' = cmdRunning p \<and>
     cmdCounter p' = cmdCounter p \<and> cmdErrorCounter p' = cmdErrorCounter p \<and>
     cmdCumulative p' = cmdCumulative p \<and> cmduCPUCumulative p' = cmduCPUCumulative p \<and>
     cmdsCPUCumulative p' = cmdsCPUCumulative p \<and>
     cmdByUserCounter p' = cmdByUserCounter p \<and> cmdByUserCumulative p' = cmdByUserCumulative p \<and>
     cmdByIPCounter p' = cmdByIPCounter p \<and> cmdByIPCumulative p' = cmdByIPCumulative p \<and>
     cmdByReplicaCounter p' = cmdByReplicaCounter p \<and>
     cmdByReplicaCumulative p' = cmdByReplicaCumulative p \<and>
     cmdByProgramCounter p' = cmdByProgramCounter p \<and>
     cmdByProgramCumulative p' = cmdByProgramCumulative p \<and>
     totalReadWait p' = totalReadWait p \<and> totalReadHeld p' = totalReadHeld p \<and>
     totalWriteWait p' = totalWriteWait p \<and> totalWriteHeld p' = totalWriteHeld p \<and>
     totalTriggerLapse p' = totalTriggerLapse p \<and>
     syncFilesAdded p' = syncFilesAdded p \<and> syncFilesUpdated p' = syncFilesUpdated p \<and>
     syncFilesDeleted p' = syncFilesDeleted p \<and> syncBytesAdded p' = syncBytesAdded p \<and>
     syncBytesUpdated p' = syncBytesUpdated p \<and> cmdsProcessed p' = cmdsProcessed p \<and>
     linesRead p' = linesRead p \<and> outputCmdsByUserRegex p' = outputCmdsByUserRegex p"
  using assms by (auto simp: recordUserDetail_def Let_def split: if_splits)

lemma recordUser_frame:
  assumes "recordUser ext p cmd = Inr p'"
  shows "config p' = config p \<and> historical p' = historical p \<and>
     timeLatestStartCmd p' = timeLatestStartCmd p \<and> latestStartCmdBuf p' = latestStartCmdBuf p \<and>
     timeChan p' = timeChan p \<and> cmdRunning p' = cmdRunning p \<and>
     cmdCounter p' = cmdCounter p \<and> cmdErrorCounter p' = cmdErrorCounter p \<and>
     cmdCumulative p' = cmdCumulative p \<and> cmduCPUCumulative p' = cmduCPUCumulative p \<and>
     cmdsCPUCumulative p' = cmdsCPUCumulative p \<and>
     cmdByUserCounter p' = m_add (userName ext p cmd) 1 (cmdByUserCounter p) \<and>
     cmdByUserCumulative p' =
       m_add (userName ext p cmd) (CompletedLapse cmd) (cmdByUserCumulative p) \<and>
     cmdByIPCounter p' = cmdByIPCounter p \<and> cmdByIPCumulative p' = cmdByIPCumulative p \<and>
     cmdByReplicaCounter p' = cmdByReplicaCounter p \<and>
     cmdByReplicaCumulative p' = cmdByReplicaCumulative p \<and>
     cmdByProgramCounter p' = cmdByProgramCounter p \<and>
     cmdByProgramCumulative p' = cmdByProgramCumulative p \<and>
     totalReadWait p' = totalReadWait p \<and> totalReadHeld p' = totalReadHeld p \<and>
     totalWriteWait p' = totalWriteWait p \<and> totalWriteHeld p' = totalWriteHeld p \<and>
     totalTriggerLapse p' = totalTriggerLapse p \<and>
     syncFilesAdded p' = syncFilesAdded p \<and> syncFilesUpdated p' = syncFilesUpdated p \<and>
     syncFilesDeleted p' = syncFilesDeleted p \<and> syncBytesAdded p' = syncBytesAdded p \<and>
     syncBytesUpdated p' = syncBytesUpdated p \<and> cmdsProcessed p' = cmdsProcessed p \<and>
     linesRead p' = linesRead p"
proof (cases "OutputCmdsByUserRegex (config p) = []")
  case True
  with assms show ?thesis by (auto simp: recordUser_def userName_def Let_def)
next
  case False
  let ?u = "userName ext p cmd"
  let ?p1 = "p\<lparr> cmdByUserCounter := m_add ?u 1 (cmdByUserCounter p),
                 cmdByUserCumulative := m_add ?u (CompletedLapse cmd) (cmdByUserCumulative p) \<rparr>"
  from assms False obtain r where
    r: "p' = ?p1\<lparr> outputCmdsByUserRegex := Some r \<rparr>
        \<or> recordUserDetail (?p1\<lparr> outputCmdsByUserRegex := Some r \<rparr>) ?u cmd = Inr p'"
    by (auto simp: recordUser_def userName_def Let_def split: option.splits if_splits)
  then show ?thesis
  proof
    assume "p' = ?p1\<lparr> outputCmdsByUserRegex := Some r \<rparr>"
    then show ?thesis by simp
  next
    assume "recordUserDetail (?p1\<lparr> outputCmdsByUserRegex := Some r \<rparr>) ?u cmd = Inr p'"
    from recordUserDetail_frame [OF this] show ?thesis by simp
  qed
qed

lemma fold_recordTable_tables:
  "totalTriggerLapse (fold recordTable ts p) =
     fold trigAdd (filter isTriggerEntry ts) (totalTriggerLapse p) \<and>
   totalReadHeld (fold recordTable ts p) =
     fold (lockAdd TotalReadHeld) (filter (\<lambda>t. \<not> isTriggerEntry t) ts) (totalReadHeld p) \<and>
   totalReadWait (fold recordTable ts p) =
     fold (lockAdd TotalReadWait) (filter (\<lambda>t. \<not> isTriggerEntry t) ts) (totalReadWait p) \<and>
   totalWriteHeld (fold recordTable ts p) =
     fold (lockAdd TotalWriteHeld) (filter (\<lambda>t. \<not> isTriggerEntry t) ts) (totalWriteHeld p) \<and>
   totalWriteWait (fold recordTable ts p) =
     fold (lockAdd TotalWriteWait) (filter (\<lambda>t. \<not> isTriggerEntry t) ts) (totalWriteWait p)"
  by (induction ts arbitrary: p)
     (simp_all add: recordTable_def trigAdd_def lockAdd_def isTriggerEntry_def)

lemma fold_recordTable_frame:
  "config (fold recordTable ts p) = config p \<and>
   historical (fold recordTable ts p) = historical p \<and>
   timeLatestStartCmd (fold recordTable ts p) = timeLatestStartCmd p \<and>
   latestStartCmdBuf (fold recordTable ts p) = latestStartCmdBuf p \<and>
   timeChan (fold recordTable ts p) = timeChan p \<and>
   cmdRunning (fold recordTable ts p) = cmdRunning p \<and>
   cmdCounter (fold recordTable ts p) = cmdCounter p \<and>
   cmdErrorCounter (fold recordTable ts p) = cmdErrorCounter p \<and>
   cmdCumulative (fold recordTable ts p) = cmdCumulative p \<and>
   cmduCPUCumulative (fold recordTable ts p) = cmduCPUCumulative p \<and>
   cmdsCPUCumulative (fold recordTable ts p) = cmdsCPUCumulative p \<and>
   cmdByUserCounter (fold recordTable ts p) = cmdByUserCounter p \<and>
   cmdByUserCumulative (fold recordTable ts p) = cmdByUserCumulative p \<and>
   cmdByIPCounter (fold recordTable ts p) = cmdByIPCounter p \<and>
   cmdByIPCumulative (fold recordTable ts p) = cmdByIPCumulative p \<and>
   cmdByReplicaCounter (fold recordTable ts p) = cmdByReplicaCounter p \<and>
   cmdByReplicaCumulative (fold recordTable ts p) = cmdByReplicaCumulative p \<and>
   cmdByProgramCounter (fold recordTable ts p) = cmdByProgramCounter p \<and>
   cmdByProgramCumulative (fold recordTable ts p) = cmdByProgramCumulative p \<and>
   cmdByUserDetailCounter (fold recordTable ts p) = cmdByUserDetailCounter p \<and>
   cmdByUserDetailCumulative (fold recordTable ts p) = cmdByUserDetailCumulative p \<and>
   syncFilesAdded (fold recordTable ts p) = syncFilesAdded p \<and>
   syncFilesUpdated (fold recordTable ts p) = syncFilesUpdated p \<and>
   syncFilesDeleted (fold recordTable ts p) = syncFilesDeleted p \<and>
   syncBytesAdded (fold recordTable ts p) = syncBytesAdded p \<and>
   syncBytesUpdated (fold recordTable ts p) = syncBytesUpdated p \<and>
   cmdsProcessed (fold recordTable ts p) = cmdsProcessed p \<and>
   linesRead (fold recordTable ts p) = linesRead p \<and>
   outputCmdsByUserRegex (fold recordTable ts p) = outputCmdsByUserRegex p"
  by (induction ts arbitrary: p) (simp_all add: recordTable_def)

lemma publishEvent_tables:
  assumes "publishEvent ext p cmd = Inr p'"
  shows "totalTriggerLapse p' = fold trigAdd (triggerEntries cmd) (totalTriggerLapse p) \<and>
     totalReadHeld p' = fold (lockAdd TotalReadHeld) (lockEntries cmd) (totalReadHeld p) \<and>
     totalReadWait p' = fold (lockAdd TotalReadWait) (lockEntries cmd) (totalReadWait p) \<and>
     totalWriteHeld p' = fold (lockAdd TotalWriteHeld) (lockEntries cmd) (totalWriteHeld p) \<and>
     totalWriteWait p' = fold (lockAdd TotalWriteWait) (lockEntries cmd) (totalWriteWait p)"
proof -
  from assms obtain p1 where p1: "recordUser ext (recordCmd p cmd) cmd = Inr p1"
    and p': "p' = recordTables (recordProgram (recordIP p1 cmd) cmd) cmd"
    by (rule publishEvent_InrD)
  note f = recordUser_frame [OF p1]
  show ?thesis
    unfolding p' recordTables_def triggerEntries_def lockEntries_def
    by (simp add: fold_recordTable_tables f recordProgram_def recordIP_def recordCmd_def Let_def
          split: prod.splits)
qed

lemma isTriggerName_iff:
  "isTriggerName n = (\<exists>rest. rest \<noteq> [] \<and> n = triggerPrefix @ rest)"
proof
  assume a: "isTriggerName n"
  then have "n = triggerPrefix @ drop (length triggerPrefix) n"
    by (metis append_take_drop_id isTriggerName_def)
  moreover from a have "drop (length triggerPrefix) n \<noteq> []"
    by (simp add: isTriggerName_def)
  ultimately show "\<exists>rest. rest \<noteq> [] \<and> n = triggerPrefix @ rest" by blast
next
  assume "\<exists>rest. rest \<noteq> [] \<and> n = triggerPrefix @ rest"
  then show "isTriggerName n" by (auto simp: isTriggerName_def)
qed

section \<open>Table entries: triggers and locks\<close>

text \<open>
  C5, as amended. A table entry is a trigger entry when its name is \<open>trigger_\<close> followed
  by at least one more character. When \<open>publishEvent\<close> returns, the trigger-lapse
  aggregate is the old one with, for every trigger entry of the command in turn, the
  entry's lapse time added under the name without the prefix, and nothing else; each of
  the four lock aggregates is the old one with, for every other entry in turn, the
  entry's milliseconds divided by 1000 added under the table name, and nothing else. So
  a trigger entry leaves the lock aggregates alone and a lock entry leaves the
  trigger-lapse aggregate alone.
\<close>

theorem publishEvent_table_entries:
  assumes "publishEvent ext p cmd = Inr p'"
  shows "(\<forall>t. isTriggerEntry t = (\<exists>rest. rest \<noteq> [] \<and> TableName t = ''trigger_'' @ rest)) \<and>
     totalTriggerLapse p' = fold trigAdd (triggerEntries cmd) (totalTriggerLapse p) \<and>
     totalReadHeld p' = fold (lockAdd TotalReadHeld) (lockEntries cmd) (totalReadHeld p) \<and>
     totalReadWait p' = fold (lockAdd TotalReadWait) (lockEntries cmd) (totalReadWait p) \<and>
     totalWriteHeld p' = fold (lockAdd TotalWriteHeld) (lockEntries cmd) (totalWriteHeld p) \<and>
     totalWriteWait p' = fold (lockAdd TotalWriteWait) (lockEntries cmd) (totalWriteWait p)"
proof -
  have "\<forall>t. isTriggerEntry t = (\<exists>rest. rest \<noteq> [] \<and> TableName t = ''trigger_'' @ rest)"
    unfolding isTriggerEntry_def isTriggerName_iff by (simp add: triggerPrefix_def)
  with publishEvent_tables [OF assms] show ?thesis by simp
qed

lemma sample_publishEvent_Inr:
  "publishEvent sampleExt sampleState sampleCommand =
     Inr (projr (publishEvent sampleExt sampleState sampleCommand))"
proof -
  have "\<not> isl (publishEvent sampleExt sampleState sampleCommand)" by code_simp
  then show ?thesis by simp
qed

theorem publishEvent_table_entries_witness:
  "publishEvent sampleExt sampleState sampleCommand =
     Inr (projr (publishEvent sampleExt sampleState sampleCommand)) \<and>
   totalTriggerLapse (projr (publishEvent sampleExt sampleState sampleCommand)) = [(''mytrig'', 2)] \<and>
   totalReadHeld (projr (publishEvent sampleExt sampleState sampleCommand)) = [(''db.rev'', 3 / 2)] \<and>
   totalWriteWait (projr (publishEvent sampleExt sampleState sampleCommand)) = [(''db.rev'', 1 / 4)]"
proof -
  note t = publishEvent_table_entries [OF sample_publishEvent_Inr]
  have a: "fold trigAdd (triggerEntries sampleCommand) (totalTriggerLapse sampleState)
             = [(''mytrig'', 2)]"
    by code_simp
  have b: "fold (lockAdd TotalReadHeld) (lockEntries sampleCommand) (totalReadHeld sampleState)
             = [(''db.rev'', 3 / 2)]"
    by code_simp
  have c: "fold (lockAdd TotalWriteWait) (lockEntries sampleCommand) (totalWriteWait sampleState)
             = [(''db.rev'', 1 / 4)]"
    by code_simp
  from t a b c sample_publishEvent_Inr show ?thesis by presburger
qed

text \<open>
  The claim as first stated, for every name that starts with \<open>trigger_\<close>, fails on the
  name \<open>trigger_\<close> itself: the entry is booked under the lock aggregates and the
  trigger-lapse aggregate stays empty.
\<close>

theorem bare_trigger_prefix_counterexample:
  "hasPrefix (TableName (hd (Tables barePrefixCommand))) ''trigger_'' \<and>
   totalTriggerLapse (projr (publishEvent sampleExt sampleState barePrefixCommand)) = [] \<and>
   totalReadHeld (projr (publishEvent sampleExt sampleState barePrefixCommand))
     = [(''trigger_'', 3 / 2)] \<and>
   \<not> isl (publishEvent sampleExt sampleState barePrefixCommand)"
  by code_simp


lemma m_load_add:
  "m_load (m_add k d m) k' = (if k' = k then m_load m k + d else m_load m k')"
  by (simp add: m_add_def m_load_store)

lemma m_keys_store: "set (m_keys (m_store k v m)) = insert k (set (m_keys m))"
  using dom_update [of k v m] by (simp add: m_keys_def m_store_def)

lemma m_keys_add: "set (m_keys (m_add k d m)) = insert k (set (m_keys m))"
  by (simp add: m_add_def m_keys_store)

section \<open>The client address: replica and IP\<close>

lemma hasPrefix_slash: "hasPrefix (c # t) ''/'' = (c = CHR ''/'')"
  by (simp add: hasPrefix_def)

lemma strings_Index_absent: "CHR ''/'' \<notin> set s \<Longrightarrow> strings_Index s ''/'' = - 1"
  by (induction s) (auto simp: hasPrefix_slash Let_def)

lemma strings_Index_first:
  "CHR ''/'' \<notin> set pre \<Longrightarrow> strings_Index (pre @ CHR ''/'' # suf) ''/'' = int (length pre)"
  by (induction pre) (auto simp: hasPrefix_slash Let_def)

lemma strings_Index_found:
  "0 \<le> strings_Index s ''/'' \<Longrightarrow>
     \<exists>pre suf. s = pre @ CHR ''/'' # suf \<and> CHR ''/'' \<notin> set pre
       \<and> strings_Index s ''/'' = int (length pre)"
proof (induction s)
  case Nil
  then show ?case by simp
next
  case (Cons c t)
  show ?case
  proof (cases "c = CHR ''/''")
    case True
    then have "c # t = [] @ CHR ''/'' # t \<and> CHR ''/'' \<notin> set []
        \<and> strings_Index (c # t) ''/'' = int (length ([] :: string))"
      by (simp add: hasPrefix_slash)
    then show ?thesis by blast
  next
    case False
    with Cons.prems have nn: "0 \<le> strings_Index t ''/''"
      by (auto simp: hasPrefix_slash Let_def split: if_splits)
    from Cons.IH [OF nn] obtain pre suf where
      ps: "t = pre @ CHR ''/'' # suf" "CHR ''/'' \<notin> set pre"
          "strings_Index t ''/'' = int (length pre)"
      by blast
    with False have "c # t = (c # pre) @ CHR ''/'' # suf \<and> CHR ''/'' \<notin> set (c # pre)
        \<and> strings_Index (c # t) ''/'' = int (length (c # pre))"
      by (auto simp: hasPrefix_slash Let_def)
    then show ?thesis by blast
  qed
qed

lemma splitIP_prefix:
  assumes "pre \<noteq> []" and "CHR ''/'' \<notin> set pre"
  shows "splitIP (pre @ CHR ''/'' # suf) = (suf, pre)"
  using assms by (simp add: splitIP_def strings_Index_first Let_def)

lemma splitIP_noslash: "CHR ''/'' \<notin> set s \<Longrightarrow> splitIP s = (s, [])"
  by (simp add: splitIP_def strings_Index_absent)

lemma splitIP_leading: "splitIP (CHR ''/'' # s) = (CHR ''/'' # s, [])"
  by (simp add: splitIP_def hasPrefix_slash)

lemma splitIP_replica:
  assumes "snd (splitIP s) \<noteq> []"
  shows "\<exists>pre suf. pre \<noteq> [] \<and> CHR ''/'' \<notin> set pre \<and> s = pre @ CHR ''/'' # suf"
proof -
  from assms have pos: "0 < strings_Index s ''/''"
    by (auto simp: splitIP_def Let_def split: if_splits)
  then have "0 \<le> strings_Index s ''/''" by simp
  from strings_Index_found [OF this] obtain pre suf where
    ps: "s = pre @ CHR ''/'' # suf" "CHR ''/'' \<notin> set pre"
        "strings_Index s ''/'' = int (length pre)"
    by blast
  with pos have "pre \<noteq> []" by auto
  with ps show ?thesis by blast
qed

lemma publishEvent_ip:
  assumes "publishEvent ext p cmd = Inr p'"
  shows "cmdByIPCounter p' = m_add (fst (splitIP (IP cmd))) 1 (cmdByIPCounter p) \<and>
     cmdByIPCumulative p' =
       m_add (fst (splitIP (IP cmd))) (CompletedLapse cmd) (cmdByIPCumulative p) \<and>
     cmdByReplicaCounter p' =
       (if snd (splitIP (IP cmd)) \<noteq> []
        then m_add (snd (splitIP (IP cmd))) 1 (cmdByReplicaCounter p)
        else cmdByReplicaCounter p) \<and>
     cmdByReplicaCumulative p' =
       (if snd (splitIP (IP cmd)) \<noteq> []
        then m_add (snd (splitIP (IP cmd))) (CompletedLapse cmd) (cmdByReplicaCumulative p)
        else cmdByReplicaCumulative p)"
proof -
  from assms obtain p1 where p1: "recordUser ext (recordCmd p cmd) cmd = Inr p1"
    and p': "p' = recordTables (recordProgram (recordIP p1 cmd) cmd) cmd"
    by (rule publishEvent_InrD)
  note f = recordUser_frame [OF p1]
  show ?thesis
    unfolding p' recordTables_def
    by (simp add: fold_recordTable_frame f recordProgram_def recordIP_def recordCmd_def Let_def
          split: prod.splits)
qed

text \<open>
  C4, as amended. Let \<open>publishEvent\<close> return on a command. If the address is a
  non-empty prefix without a slash, a slash, and a rest, the replica counter of the
  prefix grows by one and its replica total by the completion time, and the IP counter
  of the rest grows by one and its IP total by the completion time. If the address
  holds no slash, or if it starts with a slash, it is not split: the IP counter and
  total of the whole address grow so, and the replica aggregates are as before.
  Whenever the address has no such non-empty prefix, the replica aggregates are as
  before.
\<close>

theorem publishEvent_replica_and_ip:
  assumes "publishEvent ext p cmd = Inr p'"
  shows "(\<forall>pre suf. pre \<noteq> [] \<and> CHR ''/'' \<notin> set pre \<and> IP cmd = pre @ ''/'' @ suf \<longrightarrow>
        cmdByReplicaCounter p' = m_add pre 1 (cmdByReplicaCounter p) \<and>
        cmdByReplicaCumulative p' = m_add pre (CompletedLapse cmd) (cmdByReplicaCumulative p) \<and>
        cmdByIPCounter p' = m_add suf 1 (cmdByIPCounter p) \<and>
        cmdByIPCumulative p' = m_add suf (CompletedLapse cmd) (cmdByIPCumulative p)) \<and>
     (CHR ''/'' \<notin> set (IP cmd) \<longrightarrow>
        cmdByIPCounter p' = m_add (IP cmd) 1 (cmdByIPCounter p) \<and>
        cmdByIPCumulative p' = m_add (IP cmd) (CompletedLapse cmd) (cmdByIPCumulative p) \<and>
        cmdByReplicaCounter p' = cmdByReplicaCounter p \<and>
        cmdByReplicaCumulative p' = cmdByReplicaCumulative p) \<and>
     (\<forall>suf. IP cmd = ''/'' @ suf \<longrightarrow>
        cmdByIPCounter p' = m_add (IP cmd) 1 (cmdByIPCounter p) \<and>
        cmdByIPCumulative p' = m_add (IP cmd) (CompletedLapse cmd) (cmdByIPCumulative p) \<and>
        cmdByReplicaCounter p' = cmdByReplicaCounter p \<and>
        cmdByReplicaCumulative p' = cmdByReplicaCumulative p) \<and>
     ((\<nexists>pre suf. pre \<noteq> [] \<and> CHR ''/'' \<notin> set pre \<and> IP cmd = pre @ ''/'' @ suf) \<longrightarrow>
        cmdByReplicaCounter p' = cmdByReplicaCounter p \<and>
        cmdByReplicaCumulative p' = cmdByReplicaCumulative p)"
proof -
  note e = publishEvent_ip [OF assms]
  have a: "\<forall>pre suf. pre \<noteq> [] \<and> CHR ''/'' \<notin> set pre \<and> IP cmd = pre @ ''/'' @ suf \<longrightarrow>
        cmdByReplicaCounter p' = m_add pre 1 (cmdByReplicaCounter p) \<and>
        cmdByReplicaCumulative p' = m_add pre (CompletedLapse cmd) (cmdByReplicaCumulative p) \<and>
        cmdByIPCounter p' = m_add suf 1 (cmdByIPCounter p) \<and>
        cmdByIPCumulative p' = m_add suf (CompletedLapse cmd) (cmdByIPCumulative p)"
  proof (intro allI impI)
    fix pre suf
    assume h: "pre \<noteq> [] \<and> CHR ''/'' \<notin> set pre \<and> IP cmd = pre @ ''/'' @ suf"
    then have "splitIP (IP cmd) = (suf, pre)" using splitIP_prefix [of pre suf] by simp
    with e h show "cmdByReplicaCounter p' = m_add pre 1 (cmdByReplicaCounter p) \<and>
        cmdByReplicaCumulative p' = m_add pre (CompletedLapse cmd) (cmdByReplicaCumulative p) \<and>
        cmdByIPCounter p' = m_add suf 1 (cmdByIPCounter p) \<and>
        cmdByIPCumulative p' = m_add suf (CompletedLapse cmd) (cmdByIPCumulative p)"
      by simp
  qed
  have b: "CHR ''/'' \<notin> set (IP cmd) \<longrightarrow>
        cmdByIPCounter p' = m_add (IP cmd) 1 (cmdByIPCounter p) \<and>
        cmdByIPCumulative p' = m_add (IP cmd) (CompletedLapse cmd) (cmdByIPCumulative p) \<and>
        cmdByReplicaCounter p' = cmdByReplicaCounter p \<and>
        cmdByReplicaCumulative p' = cmdByReplicaCumulative p"
    using e by (simp add: splitIP_noslash)
  have l: "\<forall>suf. IP cmd = ''/'' @ suf \<longrightarrow>
        cmdByIPCounter p' = m_add (IP cmd) 1 (cmdByIPCounter p) \<and>
        cmdByIPCumulative p' = m_add (IP cmd) (CompletedLapse cmd) (cmdByIPCumulative p) \<and>
        cmdByReplicaCounter p' = cmdByReplicaCounter p \<and>
        cmdByReplicaCumulative p' = cmdByReplicaCumulative p"
  proof (intro allI impI)
    fix suf
    assume h: "IP cmd = ''/'' @ suf"
    then have "splitIP (IP cmd) = (IP cmd, [])" using splitIP_leading [of suf] by simp
    with e show "cmdByIPCounter p' = m_add (IP cmd) 1 (cmdByIPCounter p) \<and>
        cmdByIPCumulative p' = m_add (IP cmd) (CompletedLapse cmd) (cmdByIPCumulative p) \<and>
        cmdByReplicaCounter p' = cmdByReplicaCounter p \<and>
        cmdByReplicaCumulative p' = cmdByReplicaCumulative p"
      by simp
  qed
  have c: "(\<nexists>pre suf. pre \<noteq> [] \<and> CHR ''/'' \<notin> set pre \<and> IP cmd = pre @ ''/'' @ suf) \<longrightarrow>
        cmdByReplicaCounter p' = cmdByReplicaCounter p \<and>
        cmdByReplicaCumulative p' = cmdByReplicaCumulative p"
  proof
    assume n: "\<nexists>pre suf. pre \<noteq> [] \<and> CHR ''/'' \<notin> set pre \<and> IP cmd = pre @ ''/'' @ suf"
    have "snd (splitIP (IP cmd)) = []"
    proof (rule ccontr)
      assume "snd (splitIP (IP cmd)) \<noteq> []"
      from splitIP_replica [OF this] n show False by simp
    qed
    with e show "cmdByReplicaCounter p' = cmdByReplicaCounter p \<and>
        cmdByReplicaCumulative p' = cmdByReplicaCumulative p"
      by simp
  qed
  from a b l c show ?thesis by blast
qed

lemma direct_publishEvent_Inr:
  "publishEvent sampleExt sampleState directCommand =
     Inr (projr (publishEvent sampleExt sampleState directCommand))"
proof -
  have "\<not> isl (publishEvent sampleExt sampleState directCommand)" by code_simp
  then show ?thesis by simp
qed

lemma leading_publishEvent_Inr:
  "publishEvent sampleExt sampleState leadingSlashCommand =
     Inr (projr (publishEvent sampleExt sampleState leadingSlashCommand))"
proof -
  have "\<not> isl (publishEvent sampleExt sampleState leadingSlashCommand)" by code_simp
  then show ?thesis by simp
qed

theorem publishEvent_replica_and_ip_witness:
  "IP sampleCommand = ''relay1'' @ ''/'' @ ''10.0.0.5'' \<and>
   cmdByReplicaCounter (projr (publishEvent sampleExt sampleState sampleCommand))
     = [(''relay1'', 1)] \<and>
   cmdByIPCounter (projr (publishEvent sampleExt sampleState sampleCommand))
     = [(''10.0.0.5'', 1)] \<and>
   cmdByIPCumulative (projr (publishEvent sampleExt sampleState sampleCommand))
     = [(''10.0.0.5'', 3 / 2)] \<and>
   CHR ''/'' \<notin> set (IP directCommand) \<and>
   cmdByIPCounter (projr (publishEvent sampleExt sampleState directCommand))
     = [(''10.0.0.5'', 1)] \<and>
   cmdByReplicaCounter (projr (publishEvent sampleExt sampleState directCommand)) = [] \<and>
   IP leadingSlashCommand = ''/'' @ ''10.0.0.5'' \<and>
   cmdByIPCounter (projr (publishEvent sampleExt sampleState leadingSlashCommand))
     = [(''/10.0.0.5'', 1)] \<and>
   cmdByReplicaCounter (projr (publishEvent sampleExt sampleState leadingSlashCommand)) = []"
proof -
  have ip: "IP sampleCommand = ''relay1'' @ ''/'' @ ''10.0.0.5''" by code_simp
  have h: "''relay1'' \<noteq> [] \<and> CHR ''/'' \<notin> set ''relay1''
      \<and> IP sampleCommand = ''relay1'' @ ''/'' @ ''10.0.0.5''"
    using ip by simp
  have n: "CHR ''/'' \<notin> set (IP directCommand)" by code_simp
  have ls: "IP leadingSlashCommand = ''/'' @ ''10.0.0.5''" by code_simp
  note t1 = publishEvent_replica_and_ip [OF sample_publishEvent_Inr]
  note t2 = publishEvent_replica_and_ip [OF direct_publishEvent_Inr]
  note t3 = publishEvent_replica_and_ip [OF leading_publishEvent_Inr]
  from t1 h have r1:
    "cmdByReplicaCounter (projr (publishEvent sampleExt sampleState sampleCommand))
       = m_add ''relay1'' 1 (cmdByReplicaCounter sampleState) \<and>
     cmdByIPCounter (projr (publishEvent sampleExt sampleState sampleCommand))
       = m_add ''10.0.0.5'' 1 (cmdByIPCounter sampleState) \<and>
     cmdByIPCumulative (projr (publishEvent sampleExt sampleState sampleCommand))
       = m_add ''10.0.0.5'' (CompletedLapse sampleCommand) (cmdByIPCumulative sampleState)"
    by blast
  from t2 n have r2:
    "cmdByIPCounter (projr (publishEvent sampleExt sampleState directCommand))
       = m_add (IP directCommand) 1 (cmdByIPCounter sampleState) \<and>
     cmdByReplicaCounter (projr (publishEvent sampleExt sampleState directCommand))
       = cmdByReplicaCounter sampleState"
    by blast
  from t3 ls have r3:
    "cmdByIPCounter (projr (publishEvent sampleExt sampleState leadingSlashCommand))
       = m_add (IP leadingSlashCommand) 1 (cmdByIPCounter sampleState) \<and>
     cmdByReplicaCounter (projr (publishEvent sampleExt sampleState leadingSlashCommand))
       = cmdByReplicaCounter sampleState"
    by blast
  have v: "m_add ''relay1'' 1 (cmdByReplicaCounter sampleState) = [(''relay1'', 1)]"
      "m_add ''10.0.0.5'' 1 (cmdByIPCounter sampleState) = [(''10.0.0.5'', 1)]"
      "m_add ''10.0.0.5'' (CompletedLapse sampleCommand) (cmdByIPCumulative sampleState)
         = [(''10.0.0.5'', 3 / 2)]"
      "m_add (IP directCommand) 1 (cmdByIPCounter sampleState) = [(''10.0.0.5'', 1)]"
      "m_add (IP leadingSlashCommand) 1 (cmdByIPCounter sampleState) = [(''/10.0.0.5'', 1)]"
      "cmdByReplicaCounter sampleState = []"
    by code_simp+
  from ip n ls r1 r2 r3 v show ?thesis by simp
qed

text \<open>
  The claim as first stated splits every address on its first slash and books the
  text after it under the IP aggregates. An address that starts with a slash is not
  split: \<open>/10.0.0.5\<close> is booked whole, and the IP counter of \<open>10.0.0.5\<close> stays at zero.
\<close>

theorem leading_slash_counterexample:
  "IP leadingSlashCommand = ''/10.0.0.5'' \<and>
   afterFirstSlash (IP leadingSlashCommand) = ''10.0.0.5'' \<and>
   cmdByIPCounter (projr (publishEvent sampleExt sampleState leadingSlashCommand))
     = [(''/10.0.0.5'', 1)] \<and>
   m_load (cmdByIPCounter (projr (publishEvent sampleExt sampleState leadingSlashCommand)))
     (afterFirstSlash (IP leadingSlashCommand)) = 0 \<and>
   \<not> isl (publishEvent sampleExt sampleState leadingSlashCommand)"
  by code_simp

section \<open>The program name\<close>

lemma publishEvent_program:
  assumes "publishEvent ext p cmd = Inr p'"
  shows "cmdByProgramCounter p' = m_add (programKey (App cmd)) 1 (cmdByProgramCounter p) \<and>
     cmdByProgramCumulative p' =
       m_add (programKey (App cmd)) (CompletedLapse cmd) (cmdByProgramCumulative p)"
proof -
  from assms obtain p1 where p1: "recordUser ext (recordCmd p cmd) cmd = Inr p1"
    and p': "p' = recordTables (recordProgram (recordIP p1 cmd) cmd) cmd"
    by (rule publishEvent_InrD)
  note f = recordUser_frame [OF p1]
  show ?thesis
    unfolding p' recordTables_def
    by (simp add: fold_recordTable_frame f recordProgram_def recordIP_def recordCmd_def Let_def
          split: prod.splits)
qed

lemma underscore_allowed: "CHR ''_'' \<in> set labelValueChars"
  by (simp add: labelValueChars_def)

lemma replaced_chars_allowed: "set (NotLabelValueRE_ReplaceAllString s) \<subseteq> set labelValueChars"
  by (induction s rule: NotLabelValueRE_ReplaceAllString.induct)
     (auto simp: underscore_allowed)

lemma runeLen_ascii: "isASCII c \<Longrightarrow> runeLen (c # cs) = 1"
  by (cases "(c # cs)" rule: runeLen.cases) (auto simp: isASCII_def byteIn_def)

lemma replace_ascii:
  "list_all isASCII s \<Longrightarrow>
     NotLabelValueRE_ReplaceAllString s
       = map (\<lambda>c. if c \<in> set labelValueChars then c else CHR ''_'') s"
  by (induction s) (auto simp: runeLen_ascii)

lemma ReplaceAll_del_subset: "set (strings_ReplaceAll_del s old) \<subseteq> set s"
proof (induction s old rule: strings_ReplaceAll_del.induct)
  case (1 old)
  then show ?case by simp
next
  case (2 c t old)
  show ?case
  proof (cases "old \<noteq> [] \<and> hasPrefix (c # t) old")
    case True
    with 2 have "set (strings_ReplaceAll_del (drop (length old - 1) t) old)
        \<subseteq> set (drop (length old - 1) t)"
      by simp
    also have "\<dots> \<subseteq> set t" by (rule set_drop_subset)
    finally show ?thesis using True by auto
  next
    case False
    with 2 show ?thesis by auto
  qed
qed

lemma ReplaceAll_del_ascii:
  "list_all isASCII s \<Longrightarrow> list_all isASCII (strings_ReplaceAll_del s old)"
  using ReplaceAll_del_subset [of s old] by (auto simp: list_all_iff)

text \<open>
  C6, as amended. When \<open>publishEvent\<close> returns, the per-program counter has grown by
  one and the per-program total by the completion time under one key. The key is the
  program name with every occurrence of the text \<open> (brokered)\<close> deleted, wherever it
  stands, and then every rune outside the allow-list replaced by an underscore. Every
  byte of the key is on the allow-list (the underscore is on it), and for a name of
  ASCII bytes the replacement is byte by byte.
\<close>

theorem publishEvent_program_key:
  assumes "publishEvent ext p cmd = Inr p'"
  shows "cmdByProgramCounter p' = m_add (programKey (App cmd)) 1 (cmdByProgramCounter p) \<and>
     cmdByProgramCumulative p' =
       m_add (programKey (App cmd)) (CompletedLapse cmd) (cmdByProgramCumulative p) \<and>
     programKey (App cmd) =
       NotLabelValueRE_ReplaceAllString (strings_ReplaceAll_del (App cmd) '' (brokered)'') \<and>
     set (programKey (App cmd)) \<subseteq> set labelValueChars \<and>
     (list_all isASCII (App cmd) \<longrightarrow>
        programKey (App cmd) =
          map (\<lambda>c. if c \<in> set labelValueChars then c else CHR ''_'')
            (strings_ReplaceAll_del (App cmd) '' (brokered)''))"
proof -
  have k: "programKey (App cmd) =
       NotLabelValueRE_ReplaceAllString (strings_ReplaceAll_del (App cmd) '' (brokered)'')"
    by (simp add: programKey_def brokered_def)
  have s: "set (programKey (App cmd)) \<subseteq> set labelValueChars"
    unfolding programKey_def by (rule replaced_chars_allowed)
  have a: "list_all isASCII (App cmd) \<longrightarrow>
        programKey (App cmd) =
          map (\<lambda>c. if c \<in> set labelValueChars then c else CHR ''_'')
            (strings_ReplaceAll_del (App cmd) '' (brokered)'')"
    unfolding k by (auto intro: replace_ascii ReplaceAll_del_ascii)
  from publishEvent_program [OF assms] k s a show ?thesis by blast
qed

theorem publishEvent_program_key_witness:
  "list_all isASCII (App sampleCommand) \<and> App sampleCommand = ''p4 cli (brokered)'' \<and>
   programKey (App sampleCommand) = ''p4_cli'' \<and>
   cmdByProgramCounter (projr (publishEvent sampleExt sampleState sampleCommand))
     = [(''p4_cli'', 1)] \<and>
   cmdByProgramCumulative (projr (publishEvent sampleExt sampleState sampleCommand))
     = [(''p4_cli'', 3 / 2)]"
proof -
  note t = publishEvent_program_key [OF sample_publishEvent_Inr]
  have a: "list_all isASCII (App sampleCommand)" by code_simp
  have b: "App sampleCommand = ''p4 cli (brokered)''" by code_simp
  have c: "map (\<lambda>c. if c \<in> set labelValueChars then c else CHR ''_'')
            (strings_ReplaceAll_del (App sampleCommand) '' (brokered)'') = ''p4_cli''"
    by code_simp
  from t a have k0: "programKey (App sampleCommand) =
       map (\<lambda>c. if c \<in> set labelValueChars then c else CHR ''_'')
         (strings_ReplaceAll_del (App sampleCommand) '' (brokered)'')"
    by blast
  from k0 c have k: "programKey (App sampleCommand) = ''p4_cli''" by (rule trans)
  have v: "m_add ''p4_cli'' 1 (cmdByProgramCounter sampleState) = [(''p4_cli'', 1)]"
      "m_add ''p4_cli'' (CompletedLapse sampleCommand) (cmdByProgramCumulative sampleState)
         = [(''p4_cli'', 3 / 2)]"
    by code_simp+
  from t have "cmdByProgramCounter (projr (publishEvent sampleExt sampleState sampleCommand))
       = m_add (programKey (App sampleCommand)) 1 (cmdByProgramCounter sampleState)"
    and "cmdByProgramCumulative (projr (publishEvent sampleExt sampleState sampleCommand))
       = m_add (programKey (App sampleCommand)) (CompletedLapse sampleCommand)
           (cmdByProgramCumulative sampleState)"
    by blast+
  with a b k v show ?thesis by simp
qed

text \<open>
  The claim as first stated cuts the text off the end of the name only. On the name
  \<open>p4 (brokered) x\<close> that leaves the text in place, while the code deletes it.
\<close>

theorem brokered_inside_counterexample:
  "programKey_spec (App midBrokeredCommand) = ''p4_(brokered)_x'' \<and>
   programKey (App midBrokeredCommand) = ''p4_x'' \<and>
   cmdByProgramCounter (projr (publishEvent sampleExt sampleState midBrokeredCommand))
     = [(''p4_x'', 1)] \<and>
   \<not> isl (publishEvent sampleExt sampleState midBrokeredCommand)"
  by code_simp


section \<open>The boundary detector\<close>

lemma lenPrefix_eq: "lenPrefix = 20"
  by (simp add: lenPrefix_def)

lemma notDigit_iff: "notDigit c = (\<not> isDigitByte c)"
  by (auto simp: notDigit_def isDigitByte_def)

lemma checks_pass_iff:
  "stampPrefixed line =
     (\<not> length line < lenPrefix \<and>
      \<not> (line ! 0 \<noteq> CHR 0x09 \<or> line ! 5 \<noteq> CHR ''/'' \<or> line ! 8 \<noteq> CHR ''/'' \<or>
         line ! 11 \<noteq> CHR '' '' \<or> line ! 14 \<noteq> CHR '':'' \<or> line ! 17 \<noteq> CHR '':'') \<and>
      \<not> list_ex (\<lambda>i. notDigit (line ! i)) [1, 2, 3, 4, 6, 7, 9, 10, 12, 13, 15, 16, 18, 19])"
  unfolding stampPrefixed_def notDigit_iff lenPrefix_eq list_ex_Cons_iff list_ex_Nil_iff not_less de_Morgan_disj
    de_Morgan_conj not_not
  by blast

lemma not_prefixed_unchanged:
  assumes "\<not> stampPrefixed line"
  shows "historicalUpdateRequired p line = (False, p)"
proof -
  from assms have
    "length line < lenPrefix \<or>
     (line ! 0 \<noteq> CHR 0x09 \<or> line ! 5 \<noteq> CHR ''/'' \<or> line ! 8 \<noteq> CHR ''/'' \<or>
         line ! 11 \<noteq> CHR '' '' \<or> line ! 14 \<noteq> CHR '':'' \<or> line ! 17 \<noteq> CHR '':'') \<or>
     list_ex (\<lambda>i. notDigit (line ! i)) [1, 2, 3, 4, 6, 7, 9, 10, 12, 13, 15, 16, 18, 19]"
    unfolding checks_pass_iff by blast
  then show ?thesis
    unfolding historicalUpdateRequired_def
    by (elim disjE) (simp_all only: if_True if_False simp_thms split: if_split)
qed

lemma prefixed_run:
  assumes "historical p" and "stampPrefixed line"
  shows "historicalUpdateRequired p line =
     (if length (latestStartCmdBuf p) = 0
      then (False, p\<lparr> latestStartCmdBuf := take lenPrefix line,
                      timeLatestStartCmd := stampOf line \<rparr>)
      else if latestStartCmdBuf p = take lenPrefix line then (False, p)
      else if strings_Compare (take lenPrefix line) (latestStartCmdBuf p) \<le> 0 then (False, p)
      else (let p1 = (if time_Sub (stampOf line) (timeLatestStartCmd p) \<ge> 3 * Second
                      then p\<lparr> timeChan := timeChan p @ [stampOf line] \<rparr> else p)
            in if time_Sub (stampOf line) (timeLatestStartCmd p1) \<ge> UpdateInterval (config p1)
               then (True, p1\<lparr> timeLatestStartCmd := stampOf line,
                              latestStartCmdBuf := take lenPrefix line \<rparr>)
               else (False, p1)))"
proof -
  from assms(2) have c: "\<not> length line < lenPrefix"
      "\<not> (line ! 0 \<noteq> CHR 0x09 \<or> line ! 5 \<noteq> CHR ''/'' \<or> line ! 8 \<noteq> CHR ''/'' \<or>
         line ! 11 \<noteq> CHR '' '' \<or> line ! 14 \<noteq> CHR '':'' \<or> line ! 17 \<noteq> CHR '':'')"
      "\<not> list_ex (\<lambda>i. notDigit (line ! i)) [1, 2, 3, 4, 6, 7, 9, 10, 12, 13, 15, 16, 18, 19]"
    unfolding checks_pass_iff by blast+
  show ?thesis
    unfolding historicalUpdateRequired_def stampOf_def
    using assms(1) c by (simp add: Let_def)
qed

text \<open>
  C9. Take a detector in historical mode that holds a stored prefix, and a stamp-prefixed
  line whose first twenty bytes sort after that prefix. If the line's parsed time is at
  least three seconds after the stored time and less than the update interval after it,
  the call reports no update and changes nothing but the list of stamps sent to the
  parser, to which it appends the parsed time: the stored prefix and the stored time
  stay as they were.
\<close>

theorem notification_without_update:
  assumes "historical p" and "stampPrefixed line" and "latestStartCmdBuf p \<noteq> []"
    and "strings_Compare (take 20 line) (latestStartCmdBuf p) > 0"
    and "3 * Second \<le> time_Sub (stampOf line) (timeLatestStartCmd p)"
    and "time_Sub (stampOf line) (timeLatestStartCmd p) < UpdateInterval (config p)"
  shows "historicalUpdateRequired p line = (False, p\<lparr> timeChan := timeChan p @ [stampOf line] \<rparr>)
     \<and> latestStartCmdBuf (snd (historicalUpdateRequired p line)) = latestStartCmdBuf p
     \<and> timeLatestStartCmd (snd (historicalUpdateRequired p line)) = timeLatestStartCmd p"
proof -
  have ne: "latestStartCmdBuf p \<noteq> take lenPrefix line"
  proof
    assume e: "latestStartCmdBuf p = take lenPrefix line"
    have r: "strings_Compare s s = 0" for s by (induction s) auto
    from assms(4) e have "0 < strings_Compare (latestStartCmdBuf p) (latestStartCmdBuf p)"
      by (simp only: lenPrefix_eq)
    with r show False by simp
  qed
  from assms(4) have gt: "\<not> strings_Compare (take lenPrefix line) (latestStartCmdBuf p) \<le> 0"
    by (simp only: lenPrefix_eq not_le)
  have "historicalUpdateRequired p line = (False, p\<lparr> timeChan := timeChan p @ [stampOf line] \<rparr>)"
    unfolding prefixed_run [OF assms(1,2)]
    using assms(3,5,6) ne gt by (simp add: Let_def)
  then show ?thesis by simp
qed

theorem notification_without_update_witness:
  "historical detectorAtFive \<and> stampPrefixed line4 \<and> latestStartCmdBuf detectorAtFive = line3 \<and>
   strings_Compare (take 20 line4) (latestStartCmdBuf detectorAtFive) = 1 \<and>
   time_Sub (stampOf line4) (timeLatestStartCmd detectorAtFive) = 30 * Second \<and>
   UpdateInterval (config detectorAtFive) = 60 * Second \<and>
   fst (historicalUpdateRequired detectorAtFive line4) = False \<and>
   timeChan (snd (historicalUpdateRequired detectorAtFive line4)) = [1704067500, 1704067530] \<and>
   latestStartCmdBuf (snd (historicalUpdateRequired detectorAtFive line4)) = line3 \<and>
   timeLatestStartCmd (snd (historicalUpdateRequired detectorAtFive line4)) = 1704067500"
proof -
  have h: "historical detectorAtFive" "stampPrefixed line4" "latestStartCmdBuf detectorAtFive \<noteq> []"
      "strings_Compare (take 20 line4) (latestStartCmdBuf detectorAtFive) > 0"
      "3 * Second \<le> time_Sub (stampOf line4) (timeLatestStartCmd detectorAtFive)"
      "time_Sub (stampOf line4) (timeLatestStartCmd detectorAtFive)
         < UpdateInterval (config detectorAtFive)"
    by code_simp+
  note t = notification_without_update [OF h]
  have v: "latestStartCmdBuf detectorAtFive = line3"
      "strings_Compare (take 20 line4) (latestStartCmdBuf detectorAtFive) = 1"
      "time_Sub (stampOf line4) (timeLatestStartCmd detectorAtFive) = 30 * Second"
      "UpdateInterval (config detectorAtFive) = 60 * Second"
      "timeLatestStartCmd detectorAtFive = 1704067500" "stampOf line4 = 1704067530"
      "timeChan detectorAtFive = [1704067500]"
    by code_simp+
  from t h(1,2) v show ?thesis by simp
qed

lemma notification_gap:
  assumes "timeChan (snd (historicalUpdateRequired p line)) \<noteq> timeChan p"
  shows "3 * Second \<le> time_Sub (stampOf line) (timeLatestStartCmd p)"
proof (rule ccontr)
  assume n: "\<not> 3 * Second \<le> time_Sub (stampOf line) (timeLatestStartCmd p)"
  have "timeChan (snd (historicalUpdateRequired p line)) = timeChan p"
  proof (cases "historical p \<and> stampPrefixed line")
    case True
    then show ?thesis
      using n by (simp add: prefixed_run Let_def)
  next
    case False
    have "historicalUpdateRequired p line = (False, p)"
    proof (cases "historical p")
      case True
      with False have "\<not> stampPrefixed line" by simp
      then show ?thesis by (rule not_prefixed_unchanged)
    next
      case False
      then show ?thesis by (simp add: historicalUpdateRequired_def)
    qed
    then show ?thesis by simp
  qed
  with assms show False by simp
qed

text \<open>
  C2. With a one-minute update interval and a fresh detector in historical mode, the
  first line (00:00:00) is only recorded: no update, its prefix and parsed time are
  stored, nothing is sent. The second line (00:00:02) sorts later, is two seconds after
  the stored time, so nothing is sent, no update is reported and the stored prefix and
  time stay. The third line (00:05:00) is sent to the parser and reports an update,
  and its prefix and time are stored. In general a line that is not stamp-prefixed
  changes nothing and reports no update, a stamp-prefixed line met with no stored
  prefix is only recorded, and a stamp is sent to the parser only when it is at least
  three seconds after the stored time.
\<close>

theorem three_line_example:
  "UpdateInterval (config detector0) = 60 * Second \<and> historical detector0 \<and>
   latestStartCmdBuf detector0 = [] \<and>
   \<not> fst (historicalUpdateRequired detector0 line1) \<and>
   latestStartCmdBuf detector1 = take 20 line1 \<and>
   timeLatestStartCmd detector1 = 1704067200 \<and> timeChan detector1 = [] \<and>
   \<not> fst (historicalUpdateRequired detector1 line2) \<and>
   strings_Compare (take 20 line2) (latestStartCmdBuf detector1) = 1 \<and>
   time_Sub (stampOf line2) (timeLatestStartCmd detector1) = 2 * Second \<and>
   latestStartCmdBuf detector2 = take 20 line1 \<and>
   timeLatestStartCmd detector2 = 1704067200 \<and> timeChan detector2 = [] \<and>
   fst (historicalUpdateRequired detector2 line3) \<and>
   time_Sub (stampOf line3) (timeLatestStartCmd detector2) = 300 * Second \<and>
   latestStartCmdBuf detector3 = take 20 line3 \<and>
   timeLatestStartCmd detector3 = 1704067500 \<and> timeChan detector3 = [1704067500] \<and>
   (\<forall>p line. \<not> stampPrefixed line \<longrightarrow> historicalUpdateRequired p line = (False, p)) \<and>
   (\<forall>p line. historical p \<and> stampPrefixed line \<and> latestStartCmdBuf p = [] \<longrightarrow>
      historicalUpdateRequired p line =
        (False, p\<lparr> latestStartCmdBuf := take 20 line, timeLatestStartCmd := stampOf line \<rparr>)) \<and>
   (\<forall>p line. timeChan (snd (historicalUpdateRequired p line)) \<noteq> timeChan p \<longrightarrow>
      3 * Second \<le> time_Sub (stampOf line) (timeLatestStartCmd p))"
proof -
  have d0: "UpdateInterval (config detector0) = 60 * Second" "historical detector0"
      "latestStartCmdBuf detector0 = []" "timeChan detector0 = []"
    by code_simp+
  have pre: "stampPrefixed line1" "stampPrefixed line2" "stampPrefixed line3"
    by code_simp+
  have st: "stampOf line1 = 1704067200" "stampOf line2 = 1704067202"
      "stampOf line3 = 1704067500"
    by code_simp+
  have cmp: "take 20 line1 \<noteq> take 20 line2" "take 20 line1 \<noteq> take 20 line3"
      "take 20 line1 \<noteq> []" "min (length line1) 20 = 20"
      "strings_Compare (take 20 line2) (take 20 line1) = 1"
      "strings_Compare (take 20 line3) (take 20 line1) = 1"
    by code_simp+
  have gap: "time_Sub 1704067202 1704067200 = 2 * Second"
      "time_Sub 1704067500 1704067200 = 300 * Second"
    by code_simp+
  have sec: "Second = 1000000000" by (simp add: Second_def)
  let ?d1 = "detector0\<lparr> latestStartCmdBuf := take 20 line1, timeLatestStartCmd := 1704067200 \<rparr>"
  let ?d3 = "?d1\<lparr> timeChan := [1704067500], timeLatestStartCmd := 1704067500,
                  latestStartCmdBuf := take 20 line3 \<rparr>"
  have r1: "historicalUpdateRequired detector0 line1 = (False, ?d1)"
    by (simp add: prefixed_run d0 pre st lenPrefix_eq)
  then have e1: "detector1 = ?d1" by (simp add: detector1_def)
  have r2: "historicalUpdateRequired ?d1 line2 = (False, ?d1)"
    using cmp by (simp add: prefixed_run d0 pre st lenPrefix_eq gap sec)
  then have e2: "detector2 = ?d1" by (simp add: detector2_def e1)
  have r3: "historicalUpdateRequired ?d1 line3 = (True, ?d3)"
    using cmp by (simp add: prefixed_run d0 pre st lenPrefix_eq gap sec)
  then have e3: "detector3 = ?d3" by (simp add: detector3_def e2)
  have a: "UpdateInterval (config detector0) = 60 * Second \<and> historical detector0 \<and>
      latestStartCmdBuf detector0 = [] \<and>
      \<not> fst (historicalUpdateRequired detector0 line1) \<and>
      latestStartCmdBuf detector1 = take 20 line1 \<and>
      timeLatestStartCmd detector1 = 1704067200 \<and> timeChan detector1 = []"
    using d0 by (simp add: r1 e1)
  have b: "\<not> fst (historicalUpdateRequired detector1 line2) \<and>
      strings_Compare (take 20 line2) (latestStartCmdBuf detector1) = 1 \<and>
      time_Sub (stampOf line2) (timeLatestStartCmd detector1) = 2 * Second \<and>
      latestStartCmdBuf detector2 = take 20 line1 \<and>
      timeLatestStartCmd detector2 = 1704067200 \<and> timeChan detector2 = []"
    using d0 cmp gap by (simp add: r2 e1 e2 st)
  have c: "fst (historicalUpdateRequired detector2 line3) \<and>
      time_Sub (stampOf line3) (timeLatestStartCmd detector2) = 300 * Second \<and>
      latestStartCmdBuf detector3 = take 20 line3 \<and>
      timeLatestStartCmd detector3 = 1704067500 \<and> timeChan detector3 = [1704067500]"
    using d0 cmp gap by (simp add: r3 e2 e3 st)
  have d: "\<forall>p line. \<not> stampPrefixed line \<longrightarrow> historicalUpdateRequired p line = (False, p)"
    by (simp add: not_prefixed_unchanged)
  have e: "\<forall>p line. historical p \<and> stampPrefixed line \<and> latestStartCmdBuf p = [] \<longrightarrow>
      historicalUpdateRequired p line =
        (False, p\<lparr> latestStartCmdBuf := take 20 line, timeLatestStartCmd := stampOf line \<rparr>)"
    by (simp add: prefixed_run lenPrefix_eq)
  have f: "\<forall>p line. timeChan (snd (historicalUpdateRequired p line)) \<noteq> timeChan p \<longrightarrow>
      3 * Second \<le> time_Sub (stampOf line) (timeLatestStartCmd p)"
    using notification_gap by blast
  from a b c d e f show ?thesis by blast
qed

theorem three_line_example_witness:
  "\<not> stampPrefixed ''Perforce server info:'' \<and>
   fst (historicalUpdateRequired detector0 ''Perforce server info:'') = False \<and>
   latestStartCmdBuf (snd (historicalUpdateRequired detector0 ''Perforce server info:'')) = [] \<and>
   historical detector0 \<and> stampPrefixed line1 \<and> latestStartCmdBuf detector0 = [] \<and>
   fst (historicalUpdateRequired detector0 line1) = False \<and>
   latestStartCmdBuf (snd (historicalUpdateRequired detector0 line1)) = take 20 line1 \<and>
   timeChan (snd (historicalUpdateRequired detector2 line3)) \<noteq> timeChan detector2 \<and>
   3 * Second \<le> time_Sub (stampOf line3) (timeLatestStartCmd detector2)"
proof -
  note t = three_line_example
  have n: "\<not> stampPrefixed ''Perforce server info:''" by code_simp
  have h: "historical detector0 \<and> stampPrefixed line1 \<and> latestStartCmdBuf detector0 = []"
    by code_simp
  from t have "timeChan detector3 = [1704067500]" and "timeChan detector2 = []" by blast+
  then have g: "timeChan (snd (historicalUpdateRequired detector2 line3)) \<noteq> timeChan detector2"
    by (simp add: detector3_def)
  from t n have r1: "historicalUpdateRequired detector0 ''Perforce server info:''
      = (False, detector0)"
    by blast
  from t h have r2: "historicalUpdateRequired detector0 line1 =
      (False, detector0\<lparr> latestStartCmdBuf := take 20 line1,
                          timeLatestStartCmd := stampOf line1 \<rparr>)"
    by blast
  from t g have r3: "3 * Second \<le> time_Sub (stampOf line3) (timeLatestStartCmd detector2)"
    by blast
  from n h g r3 show ?thesis by (simp add: r1 r2)
qed

section \<open>Key sets and resetToZero\<close>

lemma m_load_zeroKeys:
  "m_load (zeroKeys ks m) k = (if k \<in> set ks then 0 else m_load m k)"
  unfolding zeroKeys_def by (induction ks arbitrary: m) (auto simp: m_load_store)

lemma m_keys_zeroKeys: "set (m_keys (zeroKeys ks m)) = set (m_keys m) \<union> set ks"
  unfolding zeroKeys_def by (induction ks arbitrary: m) (auto simp: m_keys_store)

lemma allZero_zeroKeys: "set (m_keys m) \<subseteq> set ks \<Longrightarrow> allZero (zeroKeys ks m)"
  by (auto simp: allZero_def list_all_iff m_load_zeroKeys m_keys_zeroKeys)

lemma zeroAll_zeroKeys: "zeroAll m = zeroKeys (m_keys m) m"
  by (simp add: zeroAll_def zeroKeys_def)

lemma allZero_zeroAll: "allZero (zeroAll m)"
  by (simp add: zeroAll_zeroKeys allZero_zeroKeys)

lemma m_keys_zeroAll: "set (m_keys (zeroAll m)) = set (m_keys m)"
  by (simp add: zeroAll_zeroKeys m_keys_zeroKeys)

lemma d_load_store: "d_load (m_store k v m) k' = (if k' = k then v else d_load m k')"
  by (simp add: d_load_def m_store_def update_conv')

lemma resetDetail_fold:
  "set (m_keys (fold (\<lambda>t m'. m_store t (zeroAll (d_load m' t)) m') ks d))
     = set (m_keys d) \<union> set ks \<and>
   (\<forall>u. u \<notin> set ks \<longrightarrow>
      d_load (fold (\<lambda>t m'. m_store t (zeroAll (d_load m' t)) m') ks d) u = d_load d u) \<and>
   (\<forall>u. u \<in> set ks \<longrightarrow>
      allZero (d_load (fold (\<lambda>t m'. m_store t (zeroAll (d_load m' t)) m') ks d) u))"
proof (induction ks arbitrary: d)
  case Nil
  then show ?case by simp
next
  case (Cons k ks)
  let ?d = "m_store k (zeroAll (d_load d k)) d"
  note ih = Cons.IH [of ?d]
  have a: "set (m_keys (fold (\<lambda>t m'. m_store t (zeroAll (d_load m' t)) m') (k # ks) d))
     = set (m_keys d) \<union> set (k # ks)"
    using ih by (auto simp: m_keys_store)
  have b: "\<forall>u. u \<notin> set (k # ks) \<longrightarrow>
      d_load (fold (\<lambda>t m'. m_store t (zeroAll (d_load m' t)) m') (k # ks) d) u = d_load d u"
    using ih by (auto simp: d_load_store)
  have c: "\<forall>u. u \<in> set (k # ks) \<longrightarrow>
      allZero (d_load (fold (\<lambda>t m'. m_store t (zeroAll (d_load m' t)) m') (k # ks) d) u)"
  proof (intro allI impI)
    fix u assume u: "u \<in> set (k # ks)"
    show "allZero (d_load (fold (\<lambda>t m'. m_store t (zeroAll (d_load m' t)) m') (k # ks) d) u)"
    proof (cases "u \<in> set ks")
      case True
      with ih show ?thesis by simp
    next
      case False
      with u have "u = k" by simp
      with False ih show ?thesis by (simp add: d_load_store allZero_zeroAll)
    qed
  qed
  from a b c show ?case by blast
qed

lemma allZeroDetail_resetDetail: "allZeroDetail (resetDetail d)"
  using resetDetail_fold [of "m_keys d" d]
  by (auto simp: allZeroDetail_def resetDetail_def list_all_iff)

lemma m_keys_resetDetail: "set (m_keys (resetDetail d)) = set (m_keys d)"
  using resetDetail_fold [of "m_keys d" d] by (auto simp: resetDetail_def)

lemma resetLocks_fold:
  "fold (\<lambda>t q. q\<lparr> totalReadHeld := m_store t 0 (totalReadHeld q),
                  totalReadWait := m_store t 0 (totalReadWait q),
                  totalWriteHeld := m_store t 0 (totalWriteHeld q),
                  totalWriteWait := m_store t 0 (totalWriteWait q) \<rparr>) ks p
   = p\<lparr> totalReadHeld := zeroKeys ks (totalReadHeld p),
        totalReadWait := zeroKeys ks (totalReadWait p),
        totalWriteHeld := zeroKeys ks (totalWriteHeld p),
        totalWriteWait := zeroKeys ks (totalWriteWait p) \<rparr>"
  by (induction ks arbitrary: p) (simp_all add: zeroKeys_def)

lemma resetLocks_eq:
  "resetLocks p =
     p\<lparr> totalReadHeld := zeroKeys (m_keys (totalReadHeld p)) (totalReadHeld p),
        totalReadWait := zeroKeys (m_keys (totalReadHeld p)) (totalReadWait p),
        totalWriteHeld := zeroKeys (m_keys (totalReadHeld p)) (totalWriteHeld p),
        totalWriteWait := zeroKeys (m_keys (totalReadHeld p)) (totalWriteWait p) \<rparr>"
  unfolding resetLocks_def by (rule resetLocks_fold)

lemma resetToZero_locks:
  assumes "lockKeysAgree p"
  shows "allZero (totalReadWait (resetToZero p)) \<and> allZero (totalReadHeld (resetToZero p)) \<and>
     allZero (totalWriteWait (resetToZero p)) \<and> allZero (totalWriteHeld (resetToZero p)) \<and>
     lockKeysAgree (resetToZero p)"
  using assms
  by (simp add: resetToZero_def resetLocks_eq Let_def lockKeysAgree_def allZero_zeroKeys
        m_keys_zeroKeys)

lemma resetToZero_detail: "detailKeysAgree p \<Longrightarrow> detailKeysAgree (resetToZero p)"
  by (simp add: resetToZero_def resetLocks_eq Let_def detailKeysAgree_def m_keys_resetDetail)

lemma m_keys_fold_lockAdd:
  "set (m_keys (fold (lockAdd f) ts m)) = set (m_keys m) \<union> TableName ` set ts"
  by (induction ts arbitrary: m) (auto simp: lockAdd_def m_keys_add)

lemma publishEvent_lockKeys:
  assumes "publishEvent ext p cmd = Inr p'" and "lockKeysAgree p"
  shows "lockKeysAgree p'"
  using publishEvent_tables [OF assms(1)] assms(2)
  by (simp add: lockKeysAgree_def m_keys_fold_lockAdd)

lemma recordUserDetail_keys:
  assumes "recordUserDetail p user cmd = Inr p'" and "detailKeysAgree p"
  shows "detailKeysAgree p'"
  using assms
  by (auto simp: recordUserDetail_def detailKeysAgree_def Let_def m_keys_store
        split: if_splits)

lemma recordUser_detailKeys:
  assumes "recordUser ext p cmd = Inr p'" and "detailKeysAgree p"
  shows "detailKeysAgree p'"
proof (cases "OutputCmdsByUserRegex (config p) = []")
  case True
  with assms show ?thesis by (auto simp: recordUser_def Let_def detailKeysAgree_def)
next
  case False
  let ?u = "userName ext p cmd"
  let ?p1 = "p\<lparr> cmdByUserCounter := m_add ?u 1 (cmdByUserCounter p),
                 cmdByUserCumulative := m_add ?u (CompletedLapse cmd) (cmdByUserCumulative p) \<rparr>"
  from assms(1) False obtain r where
    r: "p' = ?p1\<lparr> outputCmdsByUserRegex := Some r \<rparr>
        \<or> recordUserDetail (?p1\<lparr> outputCmdsByUserRegex := Some r \<rparr>) ?u cmd = Inr p'"
    by (auto simp: recordUser_def userName_def Let_def split: option.splits if_splits)
  have k: "detailKeysAgree (?p1\<lparr> outputCmdsByUserRegex := Some r \<rparr>)"
    using assms(2) by (simp add: detailKeysAgree_def)
  from r show ?thesis
  proof
    assume "p' = ?p1\<lparr> outputCmdsByUserRegex := Some r \<rparr>"
    with k show ?thesis by simp
  next
    assume "recordUserDetail (?p1\<lparr> outputCmdsByUserRegex := Some r \<rparr>) ?u cmd = Inr p'"
    from recordUserDetail_keys [OF this k] show ?thesis .
  qed
qed

lemma publishEvent_detailKeys:
  assumes "publishEvent ext p cmd = Inr p'" and "detailKeysAgree p"
  shows "detailKeysAgree p'"
proof -
  from assms(1) obtain p1 where p1: "recordUser ext (recordCmd p cmd) cmd = Inr p1"
    and p': "p' = recordTables (recordProgram (recordIP p1 cmd) cmd) cmd"
    by (rule publishEvent_InrD)
  have "detailKeysAgree (recordCmd p cmd)"
    using assms(2) by (simp add: detailKeysAgree_def recordCmd_def)
  from recordUser_detailKeys [OF p1 this] show ?thesis
    unfolding p' recordTables_def
    by (simp add: detailKeysAgree_def fold_recordTable_frame recordProgram_def recordIP_def
          Let_def split: prod.splits)
qed

lemma historicalUpdateRequired_frame:
  "\<exists>b t c. snd (historicalUpdateRequired p line) =
     p\<lparr> latestStartCmdBuf := b, timeLatestStartCmd := t, timeChan := c \<rparr>"
proof (cases "historical p \<and> stampPrefixed line")
  case True
  have u: "p = p\<lparr> latestStartCmdBuf := latestStartCmdBuf p,
      timeLatestStartCmd := timeLatestStartCmd p, timeChan := timeChan p \<rparr>"
    by simp
  show ?thesis
  proof (cases "length (latestStartCmdBuf p) = 0")
    case e: True
    have "snd (historicalUpdateRequired p line) =
        p\<lparr> latestStartCmdBuf := take lenPrefix line, timeLatestStartCmd := stampOf line,
           timeChan := timeChan p \<rparr>"
      using True e by (simp add: prefixed_run)
    then show ?thesis by blast
  next
    case ne: False
    let ?c = "if time_Sub (stampOf line) (timeLatestStartCmd p) \<ge> 3 * Second
              then timeChan p @ [stampOf line] else timeChan p"
    have "snd (historicalUpdateRequired p line) = p
        \<or> snd (historicalUpdateRequired p line) =
            p\<lparr> latestStartCmdBuf := latestStartCmdBuf p,
               timeLatestStartCmd := timeLatestStartCmd p, timeChan := ?c \<rparr>
        \<or> snd (historicalUpdateRequired p line) =
            p\<lparr> latestStartCmdBuf := take lenPrefix line,
               timeLatestStartCmd := stampOf line, timeChan := ?c \<rparr>"
      using True ne by (simp add: prefixed_run Let_def)
    with u show ?thesis by metis
  qed
next
  case False
  have "historicalUpdateRequired p line = (False, p)"
  proof (cases "historical p")
    case True
    with False have "\<not> stampPrefixed line" by simp
    then show ?thesis by (rule not_prefixed_unchanged)
  next
    case False
    then show ?thesis by (simp add: historicalUpdateRequired_def)
  qed
  then have "snd (historicalUpdateRequired p line) =
      p\<lparr> latestStartCmdBuf := latestStartCmdBuf p,
         timeLatestStartCmd := timeLatestStartCmd p, timeChan := timeChan p \<rparr>"
    by simp
  then show ?thesis by blast
qed

lemma keysAgree_detector: "keysAgree p \<Longrightarrow> keysAgree (snd (historicalUpdateRequired p line))"
proof -
  assume a: "keysAgree p"
  from historicalUpdateRequired_frame [of p line] obtain b t c where
    "snd (historicalUpdateRequired p line) =
       p\<lparr> latestStartCmdBuf := b, timeLatestStartCmd := t, timeChan := c \<rparr>"
    by blast
  with a show ?thesis by (simp add: keysAgree_def lockKeysAgree_def detailKeysAgree_def)
qed

lemma keysAgree_step: "keysAgree (p4m s) \<Longrightarrow> keysAgree (p4m (step ext s ev))"
proof -
  assume a: "keysAgree (p4m s)"
  show ?thesis
  proof (cases "status s = Running")
    case False
    with a show ?thesis by (simp add: step_def)
  next
    case True
    show ?thesis
    proof (cases ev)
      case CtxDone
      with a True show ?thesis by (simp add: step_def returnLoop_def)
    next
      case (Tick pr)
      with a True show ?thesis
        using resetToZero_locks [of "p4m s"] resetToZero_detail [of "p4m s"]
        by (simp add: step_def keysAgree_def)
    next
      case (CmdArrive cmd)
      let ?p = "(p4m s)\<lparr> cmdsProcessed := cmdsProcessed (p4m s) + 1 \<rparr>"
      have k: "lockKeysAgree ?p" "detailKeysAgree ?p"
        using a by (simp_all add: keysAgree_def lockKeysAgree_def detailKeysAgree_def)
      show ?thesis
      proof (cases "publishEvent ext ?p cmd")
        case (Inl e)
        with a True CmdArrive show ?thesis by (simp add: step_def)
      next
        case (Inr p')
        from publishEvent_lockKeys [OF Inr k(1)] publishEvent_detailKeys [OF Inr k(2)]
        show ?thesis using True CmdArrive Inr by (simp add: step_def keysAgree_def)
      qed
    next
      case (CmdClosed pr)
      with a True show ?thesis by (simp add: step_def returnLoop_def)
    next
      case (LineArrive line pr)
      let ?p = "(p4m s)\<lparr> linesRead := linesRead (p4m s) + 1 \<rparr>"
      have k: "keysAgree ?p"
        using a by (simp add: keysAgree_def lockKeysAgree_def detailKeysAgree_def)
      from keysAgree_detector [OF k, of line] k show ?thesis
        using True LineArrive by (simp add: step_def Let_def split: option.splits)
    next
      case LinesClosed
      with a True show ?thesis by (simp add: step_def)
    qed
  qed
qed

lemma keysAgree_run: "keysAgree (p4m s) \<Longrightarrow> keysAgree (p4m (run ext s evs))"
  by (induction evs arbitrary: s) (simp_all add: keysAgree_step)

lemma keysAgree_start: "keysAgree (p4m (start cfg hist need))"
  by (simp add: start_def ProcessEvents_def NewP4DMetricsLogParser_def keysAgree_def
        lockKeysAgree_def detailKeysAgree_def m_keys_def)

text \<open>
  C10. In every state the engine reaches from a fresh aggregator, whatever the events,
  the four lock maps hold the same keys; so \<open>resetToZero\<close>, which walks the keys of
  the read-held map, leaves every entry of all four lock maps at zero.
\<close>

theorem lock_maps_share_keys:
  "set (m_keys (totalReadWait (p4m (run ext (start cfg hist need) evs))))
     = set (m_keys (totalReadHeld (p4m (run ext (start cfg hist need) evs)))) \<and>
   set (m_keys (totalWriteWait (p4m (run ext (start cfg hist need) evs))))
     = set (m_keys (totalReadHeld (p4m (run ext (start cfg hist need) evs)))) \<and>
   set (m_keys (totalWriteHeld (p4m (run ext (start cfg hist need) evs))))
     = set (m_keys (totalReadHeld (p4m (run ext (start cfg hist need) evs)))) \<and>
   allZero (totalReadWait (resetToZero (p4m (run ext (start cfg hist need) evs)))) \<and>
   allZero (totalReadHeld (resetToZero (p4m (run ext (start cfg hist need) evs)))) \<and>
   allZero (totalWriteWait (resetToZero (p4m (run ext (start cfg hist need) evs)))) \<and>
   allZero (totalWriteHeld (resetToZero (p4m (run ext (start cfg hist need) evs))))"
proof -
  have "keysAgree (p4m (run ext (start cfg hist need) evs))"
    by (rule keysAgree_run [OF keysAgree_start])
  then have k: "lockKeysAgree (p4m (run ext (start cfg hist need) evs))"
    by (simp add: keysAgree_def)
  from k resetToZero_locks [OF k] show ?thesis by (simp add: lockKeysAgree_def)
qed


section \<open>Shutdown of the event loop\<close>

lemma step_not_running: "status s \<noteq> Running \<Longrightarrow> step ext s ev = s"
  by (simp add: step_def)

lemma run_not_running: "status s \<noteq> Running \<Longrightarrow> run ext s evs = s"
  by (induction evs arbitrary: s) (simp_all add: step_not_running)

lemma run_append: "run ext s (xs @ ys) = run ext (run ext s xs) ys"
  by (induction xs arbitrary: s) simp_all

lemma run_running_start: "status (run ext s evs) = Running \<Longrightarrow> status s = Running"
  using run_not_running [of s ext evs] by (cases "status s = Running") auto

lemma step_needCmdChan: "needCmdChan (step ext s ev) = needCmdChan s"
  by (cases ev)
     (auto simp: step_def returnLoop_def Let_def split: sum.splits option.splits)

lemma run_needCmdChan: "needCmdChan (run ext s evs) = needCmdChan s"
  by (induction evs arbitrary: s) (simp_all add: step_needCmdChan)

lemma queueOnce_step: "queueOnce s \<Longrightarrow> queueOnce (step ext s ev)"
  by (cases ev)
     (auto simp: step_def queueOnce_def returnLoop_def Let_def split: sum.splits option.splits)

lemma queueOnce_run: "queueOnce s \<Longrightarrow> queueOnce (run ext s evs)"
  by (induction evs arbitrary: s) (simp_all add: queueOnce_step)

lemma queueOnce_start: "queueOnce (start cfg hist need)"
  by (simp add: queueOnce_def start_def ProcessEvents_def)

lemma nil_queue_step: "fpLinesChan s = None \<Longrightarrow> fpLinesChan (step ext s ev) = None"
  by (cases ev)
     (auto simp: step_def returnLoop_def Let_def split: sum.splits option.splits)

lemma nil_queue_run: "fpLinesChan s = None \<Longrightarrow> fpLinesChan (run ext s evs) = None"
  by (induction evs arbitrary: s) (simp_all add: nil_queue_step)

lemma lines_closed_nil:
  assumes "LinesClosed \<in> set evs" and "status (run ext s evs) = Running"
  shows "fpLinesChan (run ext s evs) = None"
proof -
  from assms(1) obtain xs ys where evs: "evs = xs @ LinesClosed # ys"
    by (auto simp: in_set_conv_decomp)
  let ?s1 = "run ext s xs"
  have r: "run ext s evs = run ext (step ext ?s1 LinesClosed) ys"
    by (simp add: evs run_append)
  with assms(2) have "status (step ext ?s1 LinesClosed) = Running"
    using run_running_start by metis
  then have "status ?s1 = Running"
    using step_not_running [of ?s1 ext LinesClosed] by (cases "status ?s1 = Running") auto
  then have "fpLinesChan (step ext ?s1 LinesClosed) = None"
    by (simp add: step_def)
  then show ?thesis unfolding r by (rule nil_queue_run)
qed

text \<open>
  C3. Let the engine, started on a fresh aggregator in either mode, have handled any
  events among which the line source was closed, and let the loop still be running.
  Then the forwarding queue has been closed exactly once and is nil. When the command
  channel is then found closed, the loop sends one snapshot of the current aggregates
  on the metrics channel, closes the metrics channel (and the command output channel
  when there is one) and stops; whatever events follow, the state stays as it is, so
  no further snapshot is sent and nothing is closed again.
\<close>

theorem final_snapshot_once:
  assumes "LinesClosed \<in> set evs"
    and "status (run ext (start cfg hist need) evs) = Running"
  shows "fpLinesCloses (run ext (start cfg hist need) evs) = 1 \<and>
     fpLinesChan (run ext (start cfg hist need) evs) = None \<and>
     metricsChan (step ext (run ext (start cfg hist need) evs) (CmdClosed pr))
       = metricsChan (run ext (start cfg hist need) evs)
         @ [getCumulativeMetrics (p4m (run ext (start cfg hist need) evs)) pr] \<and>
     metricsChanClosed (step ext (run ext (start cfg hist need) evs) (CmdClosed pr)) \<and>
     cmdsOutChanClosed (step ext (run ext (start cfg hist need) evs) (CmdClosed pr)) = need \<and>
     fpLinesCloses (step ext (run ext (start cfg hist need) evs) (CmdClosed pr)) = 1 \<and>
     status (step ext (run ext (start cfg hist need) evs) (CmdClosed pr)) = Stopped \<and>
     (\<forall>later. run ext (step ext (run ext (start cfg hist need) evs) (CmdClosed pr)) later
        = step ext (run ext (start cfg hist need) evs) (CmdClosed pr))"
proof -
  let ?s = "run ext (start cfg hist need) evs"
  let ?s' = "step ext ?s (CmdClosed pr)"
  have nil: "fpLinesChan ?s = None" by (rule lines_closed_nil [OF assms])
  have "queueOnce ?s" by (rule queueOnce_run [OF queueOnce_start])
  with nil have once: "fpLinesCloses ?s = 1" by (simp add: queueOnce_def)
  have need: "needCmdChan ?s = need"
    by (simp add: run_needCmdChan start_def ProcessEvents_def)
  have s': "?s' = returnLoop (?s\<lparr> metricsChan := metricsChan ?s
      @ [getCumulativeMetrics (p4m ?s) pr] \<rparr>)"
    using assms(2) by (simp add: step_def)
  have stopped: "status ?s' = Stopped" unfolding s' by (simp add: returnLoop_def)
  then have "status ?s' \<noteq> Running" by simp
  then have later: "\<forall>later. run ext ?s' later = ?s'"
    by (simp add: run_not_running)
  have out: "metricsChan ?s' = metricsChan ?s @ [getCumulativeMetrics (p4m ?s) pr]"
      "metricsChanClosed ?s'" "cmdsOutChanClosed ?s' = need" "fpLinesCloses ?s' = 1"
    unfolding s' using need once by (simp_all add: returnLoop_def)
  from nil once out stopped later show ?thesis by blast
qed

lemma sample_history_running:
  "status (run sampleExt (start sampleConfig True True) sampleHistory) = Running"
  by code_simp

theorem final_snapshot_once_witness:
  "LinesClosed \<in> set sampleHistory \<and>
   status (run sampleExt (start sampleConfig True True) sampleHistory) = Running \<and>
   fpLinesCloses (run sampleExt (start sampleConfig True True) sampleHistory) = 1 \<and>
   metricsChan (run sampleExt (start sampleConfig True True) sampleHistory) = [] \<and>
   length (metricsChan (run sampleExt (start sampleConfig True True)
     (sampleHistory @ [CmdClosed sampleProbes, Tick sampleProbes, CmdClosed sampleProbes,
        LinesClosed]))) = 1 \<and>
   fpLinesCloses (run sampleExt (start sampleConfig True True)
     (sampleHistory @ [CmdClosed sampleProbes, Tick sampleProbes, CmdClosed sampleProbes,
        LinesClosed])) = 1 \<and>
   status (run sampleExt (start sampleConfig True True)
     (sampleHistory @ [CmdClosed sampleProbes, Tick sampleProbes, CmdClosed sampleProbes,
        LinesClosed])) = Stopped"
proof -
  have m: "LinesClosed \<in> set sampleHistory" by (simp add: sampleHistory_def)
  note t = final_snapshot_once [OF m sample_history_running, of sampleProbes]
  let ?s = "run sampleExt (start sampleConfig True True) sampleHistory"
  let ?s' = "step sampleExt ?s (CmdClosed sampleProbes)"
  have e: "metricsChan ?s = []" by code_simp
  have r: "run sampleExt (start sampleConfig True True)
     (sampleHistory @ [CmdClosed sampleProbes, Tick sampleProbes, CmdClosed sampleProbes,
        LinesClosed])
     = run sampleExt ?s' [Tick sampleProbes, CmdClosed sampleProbes, LinesClosed]"
    by (simp add: run_append)
  from t have l: "run sampleExt ?s' [Tick sampleProbes, CmdClosed sampleProbes, LinesClosed] = ?s'"
    by blast
  from t m sample_history_running show ?thesis
    unfolding r l by (simp add: e)
qed


section \<open>The families of a snapshot\<close>

lemma family_names:
  "map fname (families p pr) =
     [''p4_prom_log_lines_read'', ''p4_prom_cmds_processed'', ''p4_prom_cmds_pending'',
      ''p4_cmd_running'', ''p4_prom_cpu_user'', ''p4_prom_cpu_system'',
      ''p4_sync_files_added'', ''p4_sync_files_updated'', ''p4_sync_files_deleted'',
      ''p4_sync_bytes_added'', ''p4_sync_bytes_updated'',
      ''p4_cmd_counter'', ''p4_cmd_cumulative_seconds'',
      ''p4_cmd_cpu_user_cumulative_seconds'', ''p4_cmd_cpu_system_cumulative_seconds'',
      ''p4_cmd_error_counter'']
     @ (if OutputCmdsByUser (config p)
        then [''p4_cmd_user_counter'', ''p4_cmd_user_cumulative_seconds''] else [])
     @ (if OutputCmdsByIP (config p)
        then [''p4_cmd_ip_counter'', ''p4_cmd_ip_cumulative_seconds''] else [])
     @ (if OutputCmdsByUserRegex (config p) \<noteq> []
        then [''p4_cmd_user_detail_counter'', ''p4_cmd_user_detail_cumulative_seconds'']
        else [])
     @ [''p4_cmd_replica_counter'', ''p4_cmd_replica_cumulative_seconds'',
        ''p4_cmd_program_counter'', ''p4_cmd_program_cumulative_seconds'',
        ''p4_total_read_wait_seconds'', ''p4_total_read_held_seconds'',
        ''p4_total_write_wait_seconds'', ''p4_total_write_held_seconds'']
     @ (if totalTriggerLapse p \<noteq> [] then [''p4_total_trigger_lapse_seconds''] else [])"
proof -
  have l: "map fname (leadingFamilies p pr) =
     [''p4_prom_log_lines_read'', ''p4_prom_cmds_processed'', ''p4_prom_cmds_pending'',
      ''p4_cmd_running'', ''p4_prom_cpu_user'', ''p4_prom_cpu_system'']"
    by (simp add: leadingFamilies_def scalarFamily_def Let_def)
  have s: "map fname (syncFamilies p) =
     [''p4_sync_files_added'', ''p4_sync_files_updated'', ''p4_sync_files_deleted'',
      ''p4_sync_bytes_added'', ''p4_sync_bytes_updated'']"
    by (simp add: syncFamilies_def scalarFamily_def Let_def)
  have c: "map fname (cmdFamilies p) =
     [''p4_cmd_counter'', ''p4_cmd_cumulative_seconds'',
      ''p4_cmd_cpu_user_cumulative_seconds'', ''p4_cmd_cpu_system_cumulative_seconds'',
      ''p4_cmd_error_counter'']"
    by (simp add: cmdFamilies_def countFamily_def secondsFamily_def Let_def)
  have u: "map fname (userFamilies p) =
     (if OutputCmdsByUser (config p)
      then [''p4_cmd_user_counter'', ''p4_cmd_user_cumulative_seconds''] else [])"
    by (simp add: userFamilies_def countFamily_def secondsFamily_def Let_def)
  have i: "map fname (ipFamilies p) =
     (if OutputCmdsByIP (config p)
      then [''p4_cmd_ip_counter'', ''p4_cmd_ip_cumulative_seconds''] else [])"
    by (simp add: ipFamilies_def countFamily_def secondsFamily_def Let_def)
  have d: "map fname (userDetailFamilies p) =
     (if OutputCmdsByUserRegex (config p) \<noteq> []
      then [''p4_cmd_user_detail_counter'', ''p4_cmd_user_detail_cumulative_seconds'']
      else [])"
    by (simp add: userDetailFamilies_def detailCountFamily_def detailSecondsFamily_def Let_def)
  have r: "map fname (replicaProgramFamilies p) =
     [''p4_cmd_replica_counter'', ''p4_cmd_replica_cumulative_seconds'',
      ''p4_cmd_program_counter'', ''p4_cmd_program_cumulative_seconds'']"
    by (simp add: replicaProgramFamilies_def countFamily_def secondsFamily_def Let_def)
  have k: "map fname (lockFamilies p) =
     [''p4_total_read_wait_seconds'', ''p4_total_read_held_seconds'',
      ''p4_total_write_wait_seconds'', ''p4_total_write_held_seconds'']"
    by (simp add: lockFamilies_def secondsFamily_def Let_def)
  have t: "map fname (triggerFamilies p) =
     (if totalTriggerLapse p \<noteq> [] then [''p4_total_trigger_lapse_seconds''] else [])"
    by (simp add: triggerFamilies_def secondsFamily_def)
  have "map fname (families p pr) =
      map fname (leadingFamilies p pr) @ map fname (syncFamilies p) @ map fname (cmdFamilies p)
      @ map fname (userFamilies p) @ map fname (ipFamilies p)
      @ map fname (userDetailFamilies p) @ map fname (replicaProgramFamilies p)
      @ map fname (lockFamilies p) @ map fname (triggerFamilies p)"
    by (simp add: families_def)
  then show ?thesis
    unfolding l s c u i d r k t by simp
qed


text \<open>
  C8, as amended. The text of a snapshot is the rendering of its families one after the
  other, and the families are, by name and in this order: lines read, commands
  processed, commands pending, commands running, CPU user and system of the process,
  five sync counters (files added, updated, deleted; bytes added, updated), the
  per-command counter, total, user CPU total, system CPU total and error counter, then
  the per-user pair if \<open>OutputCmdsByUser\<close> is set, the per-IP pair if \<open>OutputCmdsByIP\<close>
  is set, the user-detail pair if \<open>OutputCmdsByUserRegex\<close> is not empty, the
  per-replica pair, the per-program pair, the four lock totals, and last the trigger
  lapse total if the trigger map holds a key.
\<close>

theorem family_order:
  "getCumulativeMetrics p pr =
     concat (map (renderFamily (historical p) (timeLatestStartCmd p)) (families p pr)) \<and>
   map fname (families p pr) =
     [''p4_prom_log_lines_read'', ''p4_prom_cmds_processed'', ''p4_prom_cmds_pending'',
      ''p4_cmd_running'', ''p4_prom_cpu_user'', ''p4_prom_cpu_system'',
      ''p4_sync_files_added'', ''p4_sync_files_updated'', ''p4_sync_files_deleted'',
      ''p4_sync_bytes_added'', ''p4_sync_bytes_updated'',
      ''p4_cmd_counter'', ''p4_cmd_cumulative_seconds'',
      ''p4_cmd_cpu_user_cumulative_seconds'', ''p4_cmd_cpu_system_cumulative_seconds'',
      ''p4_cmd_error_counter'']
     @ (if OutputCmdsByUser (config p)
        then [''p4_cmd_user_counter'', ''p4_cmd_user_cumulative_seconds''] else [])
     @ (if OutputCmdsByIP (config p)
        then [''p4_cmd_ip_counter'', ''p4_cmd_ip_cumulative_seconds''] else [])
     @ (if OutputCmdsByUserRegex (config p) \<noteq> []
        then [''p4_cmd_user_detail_counter'', ''p4_cmd_user_detail_cumulative_seconds'']
        else [])
     @ [''p4_cmd_replica_counter'', ''p4_cmd_replica_cumulative_seconds'',
        ''p4_cmd_program_counter'', ''p4_cmd_program_cumulative_seconds'',
        ''p4_total_read_wait_seconds'', ''p4_total_read_held_seconds'',
        ''p4_total_write_wait_seconds'', ''p4_total_write_held_seconds'']
     @ (if totalTriggerLapse p \<noteq> [] then [''p4_total_trigger_lapse_seconds''] else [])"
  using family_names [of p pr] by (simp add: getCumulativeMetrics_def)

text \<open>
  The claim as first stated has exactly four sync counters after the six leading
  families. A snapshot of a fresh aggregator has five, and the per-command counter is
  the twelfth family.
\<close>

theorem five_sync_counters_counterexample:
  "syncBlock (map fname (families sampleState sampleProbes)) =
     [''p4_sync_files_added'', ''p4_sync_files_updated'', ''p4_sync_files_deleted'',
      ''p4_sync_bytes_added'', ''p4_sync_bytes_updated''] \<and>
   length (syncBlock (map fname (families sampleState sampleProbes))) \<noteq> 4 \<and>
   map fname (families sampleState sampleProbes) ! 10 = ''p4_sync_bytes_updated'' \<and>
   map fname (families sampleState sampleProbes) ! 11 = ''p4_cmd_counter''"
  unfolding family_names syncBlock_def by simp

section \<open>The shape of rendered values\<close>

lemma digitChar_digit: "n < 10 \<Longrightarrow> isDigitByte (digitChar n)"
  by (auto simp: digitChar_def isDigitByte_def eval_nat_numeral less_Suc_eq)

lemma decimal_digits: "decimal n \<noteq> [] \<and> list_all isDigitByte (decimal n)"
proof (induction n rule: decimal.induct)
  case (1 n)
  show ?case
  proof (cases "n < 10")
    case True
    then show ?thesis by (subst (1 2) decimal.simps) (simp add: digitChar_digit)
  next
    case False
    with 1 show ?thesis by (subst (1 2) decimal.simps) (simp add: digitChar_digit)
  qed
qed

lemma length_decimal: "m < 10 ^ k \<Longrightarrow> 0 < k \<Longrightarrow> length (decimal m) \<le> k"
proof (induction m arbitrary: k rule: decimal.induct)
  case (1 n)
  show ?case
  proof (cases "n < 10")
    case True
    with 1(3) show ?thesis by (subst decimal.simps) simp
  next
    case False
    obtain j where k: "k = Suc j" using 1(3) by (cases k) auto
    have j: "0 < j"
    proof (rule ccontr)
      assume "\<not> 0 < j"
      with k 1(2) have "n < 10" by simp
      with False show False by simp
    qed
    from 1(2) k have "n div 10 < 10 ^ j"
      by (simp add: less_mult_imp_div_less mult.commute)
    from 1(1) [OF False this j] k False show ?thesis
      by (subst decimal.simps) simp
  qed
qed

lemma digit_not_minus: "isDigitByte c \<Longrightarrow> c \<noteq> CHR ''-''"
  by (auto simp: isDigitByte_def)

lemma digit_not_point: "isDigitByte c \<Longrightarrow> c \<noteq> CHR ''.''"
  by (auto simp: isDigitByte_def)

lemma plainDecimal_digits: "isDigitStr ds \<Longrightarrow> plainDecimal ds"
  by (cases ds) (auto simp: plainDecimal_def isDigitStr_def digit_not_minus)

lemma plainDecimal_minus: "isDigitStr ds \<Longrightarrow> plainDecimal (CHR ''-'' # ds)"
  by (simp add: plainDecimal_def)

lemma isDigitStr_decimal: "isDigitStr (decimal n)"
  by (simp add: isDigitStr_def decimal_digits)

lemma plainDecimal_fmt_d: "plainDecimal (fmt_d i)"
  by (simp add: fmt_d_def plainDecimal_digits plainDecimal_minus isDigitStr_decimal)

lemma fixedDecimals_parts:
  assumes "plainDecimal ip" and "CHR ''.'' \<notin> set ip" and "length fr = n"
    and "list_all isDigitByte fr"
  shows "fixedDecimals n (ip @ ''.'' @ fr)"
proof -
  have t: "takeWhile (\<lambda>c. c \<noteq> CHR ''.'') (ip @ CHR ''.'' # fr) = ip"
    using assms(2) by (induction ip) auto
  have d: "dropWhile (\<lambda>c. c \<noteq> CHR ''.'') (ip @ CHR ''.'' # fr) = CHR ''.'' # fr"
    using assms(2) by (induction ip) auto
  show ?thesis
    using assms(1,3,4) by (simp add: fixedDecimals_def t d)
qed

lemma no_point_in_digits: "list_all isDigitByte ds \<Longrightarrow> CHR ''.'' \<notin> set ds"
  by (auto simp: list_all_iff dest: digit_not_point)

lemma fixedDecimals_fmt_f:
  assumes "0 < n"
  shows "fixedDecimals n (fmt_f n x)"
proof -
  define scaled where "scaled = nat (roundHalfEven (\<bar>x\<bar> * 10 ^ n))"
  define ip where "ip = (if x < 0 then ''-'' else []) @ decimal (scaled div 10 ^ n)"
  define fr where "fr = zeroPad n (decimal (scaled mod 10 ^ n))"
  have f: "fmt_f n x = ip @ ''.'' @ fr"
    by (simp add: fmt_f_def Let_def scaled_def ip_def fr_def)
  have p: "plainDecimal ip"
    by (simp add: ip_def plainDecimal_digits plainDecimal_minus isDigitStr_decimal)
  have np: "CHR ''.'' \<notin> set ip"
    using no_point_in_digits [of "decimal (scaled div 10 ^ n)"]
    by (simp add: ip_def decimal_digits)
  have "scaled mod 10 ^ n < 10 ^ n" by simp
  from length_decimal [OF this assms] have l: "length fr = n"
    by (simp add: fr_def zeroPad_def)
  have z: "isDigitByte (CHR ''0'')" by (simp add: isDigitByte_def)
  have dg: "list_all isDigitByte fr"
    using z decimal_digits [of "scaled mod 10 ^ n"]
    by (auto simp: fr_def zeroPad_def list_all_iff)
  show ?thesis unfolding f by (rule fixedDecimals_parts [OF p np l dg])
qed

lemma goodFamily_scalar: "goodFamily (scalarFamily cfg name h t v) = valueShape name v"
  by (simp add: goodFamily_def scalarFamily_def)

lemma goodFamily_count:
  "name \<in> set integerFamilies \<Longrightarrow> goodFamily (countFamily cfg name h t l m)"
  by (auto simp: goodFamily_def countFamily_def valueShape_def list_all_iff plainDecimal_fmt_d)

lemma goodFamily_seconds:
  "name \<notin> set integerFamilies \<Longrightarrow> name \<notin> set processCpuFamilies \<Longrightarrow>
     goodFamily (secondsFamily cfg name h t l m)"
  by (auto simp: goodFamily_def secondsFamily_def valueShape_def list_all_iff
        fixedDecimals_fmt_f)

lemma goodFamily_detailCount:
  "name \<in> set integerFamilies \<Longrightarrow> goodFamily (detailCountFamily cfg name h t m)"
  by (auto simp: goodFamily_def detailCountFamily_def valueShape_def list_all_iff
        plainDecimal_fmt_d)

lemma goodFamily_detailSeconds:
  "name \<notin> set integerFamilies \<Longrightarrow> name \<notin> set processCpuFamilies \<Longrightarrow>
     goodFamily (detailSecondsFamily cfg name h t m)"
  by (auto simp: goodFamily_def detailSecondsFamily_def valueShape_def list_all_iff
        fixedDecimals_fmt_f)

lemma seconds_names_apart:
  "n \<in> set secondsFamilies \<Longrightarrow> n \<notin> set integerFamilies \<and> n \<notin> set processCpuFamilies"
  by (auto simp: secondsFamilies_def integerFamilies_def processCpuFamilies_def)

lemma cpu_names_apart: "n \<in> set processCpuFamilies \<Longrightarrow> n \<notin> set integerFamilies"
  by (auto simp: integerFamilies_def processCpuFamilies_def)

lemma seconds_member:
  "''p4_cmd_cumulative_seconds'' \<in> set secondsFamilies"
  "''p4_cmd_cpu_user_cumulative_seconds'' \<in> set secondsFamilies"
  "''p4_cmd_cpu_system_cumulative_seconds'' \<in> set secondsFamilies"
  "''p4_cmd_user_cumulative_seconds'' \<in> set secondsFamilies"
  "''p4_cmd_ip_cumulative_seconds'' \<in> set secondsFamilies"
  "''p4_cmd_user_detail_cumulative_seconds'' \<in> set secondsFamilies"
  "''p4_cmd_replica_cumulative_seconds'' \<in> set secondsFamilies"
  "''p4_cmd_program_cumulative_seconds'' \<in> set secondsFamilies"
  "''p4_total_read_wait_seconds'' \<in> set secondsFamilies"
  "''p4_total_read_held_seconds'' \<in> set secondsFamilies"
  "''p4_total_write_wait_seconds'' \<in> set secondsFamilies"
  "''p4_total_write_held_seconds'' \<in> set secondsFamilies"
  "''p4_total_trigger_lapse_seconds'' \<in> set secondsFamilies"
  by (simp_all add: secondsFamilies_def)

lemma integer_member:
  "''p4_prom_log_lines_read'' \<in> set integerFamilies"
  "''p4_prom_cmds_processed'' \<in> set integerFamilies"
  "''p4_prom_cmds_pending'' \<in> set integerFamilies"
  "''p4_cmd_running'' \<in> set integerFamilies"
  "''p4_sync_files_added'' \<in> set integerFamilies"
  "''p4_sync_files_updated'' \<in> set integerFamilies"
  "''p4_sync_files_deleted'' \<in> set integerFamilies"
  "''p4_sync_bytes_added'' \<in> set integerFamilies"
  "''p4_sync_bytes_updated'' \<in> set integerFamilies"
  "''p4_cmd_counter'' \<in> set integerFamilies"
  "''p4_cmd_error_counter'' \<in> set integerFamilies"
  "''p4_cmd_user_counter'' \<in> set integerFamilies"
  "''p4_cmd_ip_counter'' \<in> set integerFamilies"
  "''p4_cmd_user_detail_counter'' \<in> set integerFamilies"
  "''p4_cmd_replica_counter'' \<in> set integerFamilies"
  "''p4_cmd_program_counter'' \<in> set integerFamilies"
  by (simp_all add: integerFamilies_def)

lemma cpu_member:
  "''p4_prom_cpu_user'' \<in> set processCpuFamilies"
  "''p4_prom_cpu_system'' \<in> set processCpuFamilies"
  by (simp_all add: processCpuFamilies_def)

lemma valueShape_integer: "n \<in> set integerFamilies \<Longrightarrow> valueShape n v = plainDecimal v"
  by (simp add: valueShape_def)

lemma valueShape_cpu: "n \<in> set processCpuFamilies \<Longrightarrow> valueShape n v = fixedDecimals 6 v"
  using cpu_names_apart [of n] by (simp add: valueShape_def)

lemma valueShape_seconds: "n \<in> set secondsFamilies \<Longrightarrow> valueShape n v = fixedDecimals 3 v"
  using seconds_names_apart [of n] by (simp add: valueShape_def)

lemma goodFamily_seconds':
  "name \<in> set secondsFamilies \<Longrightarrow> goodFamily (secondsFamily cfg name h t l m)"
  using seconds_names_apart [of name] by (simp add: goodFamily_seconds)

lemma goodFamily_detailSeconds':
  "name \<in> set secondsFamilies \<Longrightarrow> goodFamily (detailSecondsFamily cfg name h t m)"
  using seconds_names_apart [of name] by (simp add: goodFamily_detailSeconds)

lemma good_leading: "list_all goodFamily (leadingFamilies p pr)"
  by (simp add: leadingFamilies_def Let_def goodFamily_scalar valueShape_integer
        valueShape_cpu integer_member cpu_member plainDecimal_fmt_d fixedDecimals_fmt_f)

lemma good_sync: "list_all goodFamily (syncFamilies p)"
  by (simp add: syncFamilies_def Let_def goodFamily_scalar valueShape_integer
        integer_member plainDecimal_fmt_d)

lemma good_cmd: "list_all goodFamily (cmdFamilies p)"
  by (simp add: cmdFamilies_def Let_def goodFamily_count goodFamily_seconds'
        integer_member seconds_member)

lemma good_user: "list_all goodFamily (userFamilies p)"
  by (simp add: userFamilies_def Let_def goodFamily_count goodFamily_seconds'
        integer_member seconds_member)

lemma good_ip: "list_all goodFamily (ipFamilies p)"
  by (simp add: ipFamilies_def Let_def goodFamily_count goodFamily_seconds'
        integer_member seconds_member)

lemma good_detail: "list_all goodFamily (userDetailFamilies p)"
  by (simp add: userDetailFamilies_def Let_def goodFamily_detailCount
        goodFamily_detailSeconds' integer_member seconds_member)

lemma good_replica: "list_all goodFamily (replicaProgramFamilies p)"
  by (simp add: replicaProgramFamilies_def Let_def goodFamily_count goodFamily_seconds'
        integer_member seconds_member)

lemma good_lock: "list_all goodFamily (lockFamilies p)"
  by (simp add: lockFamilies_def Let_def goodFamily_seconds' seconds_member)

lemma good_trigger: "list_all goodFamily (triggerFamilies p)"
  by (simp add: triggerFamilies_def goodFamily_seconds' seconds_member)

lemma good_families: "list_all goodFamily (families p pr)"
  by (simp add: families_def good_leading good_sync good_cmd good_user good_ip good_detail
        good_replica good_lock good_trigger)

lemma family_names_covered:
  "set (map fname (families p pr))
     \<subseteq> set integerFamilies \<union> set processCpuFamilies \<union> set secondsFamilies"
  unfolding family_names
  by (auto simp: integer_member cpu_member seconds_member)

lemma cpuUserFamily_samples: "map snd (fsamples cpuUserFamily) = [''1.500'']"
proof -
  have m: "cmduCPUCumulative stateAfterSample = [(''user-sync'', 3 / 2)]" by code_simp
  have r: "roundHalfEven (\<bar>3 / 2\<bar> * 10 ^ 3) = 1500" by (simp add: roundHalfEven_def)
  have d1: "decimal (Suc 0) = ''1''" by (simp add: decimal.simps digitChar_def)
  have d2: "decimal 500 = ''500''" by (simp add: decimal.simps digitChar_def)
  have f: "fmt_f 3 (3 / 2) = ''1.500''"
    unfolding fmt_f_def Let_def r by (simp add: d1 d2 zeroPad_def)
  show ?thesis by (simp add: cpuUserFamily_def secondsFamily_def m f)
qed

lemma cpuUserFamily_member: "cpuUserFamily \<in> set (families stateAfterSample sampleProbes)"
  by (simp add: families_def cmdFamilies_def cpuUserFamily_def Let_def)

lemma cpuUserFamily_name: "fname cpuUserFamily = ''p4_cmd_cpu_user_cumulative_seconds''"
  by (simp add: cpuUserFamily_def secondsFamily_def)

text \<open>
  C7, as amended. In every snapshot, every value printed under a family of integers is
  a plain decimal, every value of the two families that report the CPU time of the
  process itself (\<open>p4_prom_cpu_user\<close>, \<open>p4_prom_cpu_system\<close>) has six decimals, and every
  value of the other families, the totals in seconds, among them the per-command user
  and system CPU seconds, has three decimals. Every family is of one of the three
  kinds.
\<close>

theorem value_formats:
  "(\<forall>f \<in> set (families p pr). \<forall>s \<in> set (fsamples f).
      (fname f \<in> set integerFamilies \<longrightarrow> plainDecimal (snd s)) \<and>
      (fname f \<in> set processCpuFamilies \<longrightarrow> fixedDecimals 6 (snd s)) \<and>
      (fname f \<in> set secondsFamilies \<longrightarrow> fixedDecimals 3 (snd s))) \<and>
   set (map fname (families p pr))
     \<subseteq> set integerFamilies \<union> set processCpuFamilies \<union> set secondsFamilies \<and>
   ''p4_cmd_cpu_user_cumulative_seconds'' \<in> set secondsFamilies \<and>
   ''p4_cmd_cpu_system_cumulative_seconds'' \<in> set secondsFamilies"
proof -
  have "\<forall>f \<in> set (families p pr). \<forall>s \<in> set (fsamples f).
      (fname f \<in> set integerFamilies \<longrightarrow> plainDecimal (snd s)) \<and>
      (fname f \<in> set processCpuFamilies \<longrightarrow> fixedDecimals 6 (snd s)) \<and>
      (fname f \<in> set secondsFamilies \<longrightarrow> fixedDecimals 3 (snd s))"
  proof (intro ballI)
    fix f s
    assume f: "f \<in> set (families p pr)" and s: "s \<in> set (fsamples f)"
    from good_families [of p pr] f have "goodFamily f" by (simp add: list_all_iff)
    with s have v: "valueShape (fname f) (snd s)" by (simp add: goodFamily_def list_all_iff)
    show "(fname f \<in> set integerFamilies \<longrightarrow> plainDecimal (snd s)) \<and>
      (fname f \<in> set processCpuFamilies \<longrightarrow> fixedDecimals 6 (snd s)) \<and>
      (fname f \<in> set secondsFamilies \<longrightarrow> fixedDecimals 3 (snd s))"
      using v by (auto simp: valueShape_integer valueShape_cpu valueShape_seconds)
  qed
  with family_names_covered [of p pr] seconds_member(2,3) show ?thesis by blast
qed

theorem value_formats_witness:
  "cpuUserFamily \<in> set (families stateAfterSample sampleProbes) \<and>
   fname cpuUserFamily \<in> set secondsFamilies \<and>
   map snd (fsamples cpuUserFamily) = [''1.500''] \<and>
   list_all (\<lambda>s. fixedDecimals 3 (snd s)) (fsamples cpuUserFamily)"
proof -
  note t = value_formats [of stateAfterSample sampleProbes]
  have n: "fname cpuUserFamily \<in> set secondsFamilies"
    by (simp add: cpuUserFamily_name seconds_member)
  from t cpuUserFamily_member n
  have "\<forall>s \<in> set (fsamples cpuUserFamily). fixedDecimals 3 (snd s)" by blast
  then have "list_all (\<lambda>s. fixedDecimals 3 (snd s)) (fsamples cpuUserFamily)"
    by (simp add: list_all_iff)
  with cpuUserFamily_member n cpuUserFamily_samples show ?thesis by blast
qed

text \<open>
  The claim as first stated has every CPU-seconds value at six decimals. After the
  sample command, whose user CPU time is 1500 milliseconds, the family of per-command
  user CPU seconds prints \<open>1.500\<close>.
\<close>

theorem cpu_seconds_three_decimals_counterexample:
  "cpuUserFamily \<in> set (families stateAfterSample sampleProbes) \<and>
   fname cpuUserFamily = ''p4_cmd_cpu_user_cumulative_seconds'' \<and>
   map snd (fsamples cpuUserFamily) = [''1.500''] \<and>
   \<not> fixedDecimals 6 ''1.500''"
proof -
  have "\<not> fixedDecimals 6 ''1.500''" by (simp add: fixedDecimals_def)
  with cpuUserFamily_member cpuUserFamily_name cpuUserFamily_samples show ?thesis by blast
qed


section \<open>Which aggregates are reset, and when\<close>

lemma recordUserDetail_effect:
  assumes "recordUserDetail p u c = Inr p'" and "detailKeysAgree p"
  shows "cmdByUserDetailCounter p' =
       m_store u (m_add (Cmd c) 1 (d_load (cmdByUserDetailCounter p) u))
         (cmdByUserDetailCounter p) \<and>
     cmdByUserDetailCumulative p' =
       m_store u (m_add (Cmd c) (CompletedLapse c) (d_load (cmdByUserDetailCumulative p) u))
         (cmdByUserDetailCumulative p)"
proof (cases "map_of (cmdByUserDetailCounter p) u = None")
  case True
  then have "u \<notin> set (m_keys (cmdByUserDetailCounter p))"
    by (simp add: map_of_eq_None_iff m_keys_def)
  with assms(2) have "u \<notin> set (m_keys (cmdByUserDetailCumulative p))"
    by (simp add: detailKeysAgree_def)
  then have n: "map_of (cmdByUserDetailCumulative p) u = None"
    by (simp add: map_of_eq_None_iff m_keys_def)
  from True n have e: "d_load (cmdByUserDetailCounter p) u = []"
      "d_load (cmdByUserDetailCumulative p) u = []"
    by (simp_all add: d_load_def)
  have again: "m_store u x (m_store u [] m) = m_store u x m"
    for x and m :: "(string \<times> 'a list) list"
    by (simp add: m_store_def)
  have ne: "map_of (m_store u [] m) u \<noteq> None" for m :: "(string \<times> 'a list) list"
    by (simp add: m_store_def update_conv')
  from assms(1) True show ?thesis
    by (auto simp: recordUserDetail_def Let_def e d_load_store again ne split: if_splits)
next
  case False
  with assms(1) show ?thesis
    by (auto simp: recordUserDetail_def Let_def split: if_splits)
qed

lemma recordUser_detail:
  assumes "recordUser ext p c = Inr p'" and "detailKeysAgree p"
  shows "cmdByUserDetailCumulative p' = cmdByUserDetailCumulative p \<and>
       cmdByUserDetailCounter p' = cmdByUserDetailCounter p
     \<or> cmdByUserDetailCumulative p' =
         m_store (userName ext p c)
           (m_add (Cmd c) (CompletedLapse c)
              (d_load (cmdByUserDetailCumulative p) (userName ext p c)))
           (cmdByUserDetailCumulative p) \<and>
       cmdByUserDetailCounter p' =
         m_store (userName ext p c)
           (m_add (Cmd c) 1 (d_load (cmdByUserDetailCounter p) (userName ext p c)))
           (cmdByUserDetailCounter p)"
proof (cases "OutputCmdsByUserRegex (config p) = []")
  case True
  with assms(1) show ?thesis by (auto simp: recordUser_def Let_def)
next
  case False
  let ?u = "userName ext p c"
  let ?p1 = "p\<lparr> cmdByUserCounter := m_add ?u 1 (cmdByUserCounter p),
                 cmdByUserCumulative := m_add ?u (CompletedLapse c) (cmdByUserCumulative p) \<rparr>"
  from assms(1) False obtain r where
    r: "p' = ?p1\<lparr> outputCmdsByUserRegex := Some r \<rparr>
        \<or> recordUserDetail (?p1\<lparr> outputCmdsByUserRegex := Some r \<rparr>) ?u c = Inr p'"
    by (auto simp: recordUser_def userName_def Let_def split: option.splits if_splits)
  have k: "detailKeysAgree (?p1\<lparr> outputCmdsByUserRegex := Some r \<rparr>)"
    using assms(2) by (simp add: detailKeysAgree_def)
  from r show ?thesis
  proof
    assume "p' = ?p1\<lparr> outputCmdsByUserRegex := Some r \<rparr>"
    then show ?thesis by simp
  next
    assume "recordUserDetail (?p1\<lparr> outputCmdsByUserRegex := Some r \<rparr>) ?u c = Inr p'"
    from recordUserDetail_effect [OF this k] show ?thesis by simp
  qed
qed

lemma publishEvent_commandAdded:
  assumes "publishEvent ext (p\<lparr> cmdsProcessed := cmdsProcessed p + 1 \<rparr>) c = Inr p'"
    and "detailKeysAgree p"
  shows "commandAdded ext p c p'"
proof -
  let ?p = "p\<lparr> cmdsProcessed := cmdsProcessed p + 1 \<rparr>"
  from assms(1) obtain p1 where p1: "recordUser ext (recordCmd ?p c) c = Inr p1"
    and p': "p' = recordTables (recordProgram (recordIP p1 c) c) c"
    by (rule publishEvent_InrD)
  have u: "userName ext (recordCmd ?p c) c = userName ext p c"
    by (simp add: userName_def recordCmd_def)
  note f = recordUser_frame [OF p1, unfolded u]
  have k: "detailKeysAgree (recordCmd ?p c)"
    using assms(2) by (simp add: detailKeysAgree_def recordCmd_def)
  have d: "cmdByUserDetailCumulative p1 = cmdByUserDetailCumulative p \<and>
       cmdByUserDetailCounter p1 = cmdByUserDetailCounter p
     \<or> cmdByUserDetailCumulative p1 =
         m_store (userName ext p c)
           (m_add (Cmd c) (CompletedLapse c)
              (d_load (cmdByUserDetailCumulative p) (userName ext p c)))
           (cmdByUserDetailCumulative p) \<and>
       cmdByUserDetailCounter p1 =
         m_store (userName ext p c)
           (m_add (Cmd c) 1 (d_load (cmdByUserDetailCounter p) (userName ext p c)))
           (cmdByUserDetailCounter p)"
    using recordUser_detail [OF p1 k] unfolding u by (simp add: recordCmd_def)
  have dt: "cmdByUserDetailCumulative p' = cmdByUserDetailCumulative p1"
      "cmdByUserDetailCounter p' = cmdByUserDetailCounter p1"
    unfolding p' recordTables_def
    by (simp_all add: fold_recordTable_frame recordProgram_def recordIP_def Let_def
          split: prod.splits)
  have rest: "cmdsProcessed p' = cmdsProcessed p + 1"
      "cmdCumulative p' = m_add (Cmd c) (CompletedLapse c) (cmdCumulative p)"
      "cmduCPUCumulative p' = m_add (Cmd c) (float64_of (UCpu c) / 1000) (cmduCPUCumulative p)"
      "cmdsCPUCumulative p' = m_add (Cmd c) (float64_of (SCpu c) / 1000) (cmdsCPUCumulative p)"
      "cmdByUserCumulative p' =
        m_add (userName ext p c) (CompletedLapse c) (cmdByUserCumulative p)"
      "cmdCounter p' = m_add (Cmd c) 1 (cmdCounter p)"
      "cmdErrorCounter p' =
        (if CmdError c then m_add (Cmd c) 1 (cmdErrorCounter p) else cmdErrorCounter p)"
      "cmdByUserCounter p' = m_add (userName ext p c) 1 (cmdByUserCounter p)"
      "cmdRunning p' = Command.Running c" "linesRead p' = linesRead p"
      "syncFilesAdded p' = syncFilesAdded p + NetFilesAdded c"
      "syncFilesUpdated p' = syncFilesUpdated p + NetFilesUpdated c"
      "syncFilesDeleted p' = syncFilesDeleted p + NetFilesDeleted c"
      "syncBytesAdded p' = syncBytesAdded p + NetBytesAdded c"
      "syncBytesUpdated p' = syncBytesUpdated p + NetBytesUpdated c"
    unfolding p' recordTables_def
    by (simp_all add: fold_recordTable_frame f recordProgram_def recordIP_def recordCmd_def
          Let_def split: prod.splits)
  note ip = publishEvent_ip [OF assms(1)]
  note pg = publishEvent_program [OF assms(1)]
  note tb = publishEvent_tables [OF assms(1)]
  show ?thesis
    unfolding commandAdded_def dt
    using d rest ip pg tb by simp
qed

lemma resetToZero_cumulatives: "cumulatives (resetToZero p) = cumulatives p"
  by (simp add: cumulatives_def resetToZero_def resetLocks_eq Let_def)

lemma resetToZero_countersZero: "lockKeysAgree p \<Longrightarrow> countersZero (resetToZero p)"
  using resetToZero_locks [of p]
  by (simp add: countersZero_def)
     (simp add: resetToZero_def resetLocks_eq Let_def allZero_zeroAll allZeroDetail_resetDetail)

lemma detector_cumulatives:
  "cumulatives (snd (historicalUpdateRequired p line)) = cumulatives p \<and>
   counters (snd (historicalUpdateRequired p line)) = counters p \<and>
   linesRead (snd (historicalUpdateRequired p line)) = linesRead p \<and>
   historical (snd (historicalUpdateRequired p line)) = historical p"
proof -
  from historicalUpdateRequired_frame [of p line] obtain b t c where
    "snd (historicalUpdateRequired p line) =
       p\<lparr> latestStartCmdBuf := b, timeLatestStartCmd := t, timeChan := c \<rparr>"
    by blast
  then show ?thesis by (simp add: cumulatives_def counters_def)
qed

lemma step_cumulatives:
  assumes "\<forall>c. ev \<noteq> CmdArrive c"
  shows "cumulatives (p4m (step ext s ev)) = cumulatives (p4m s)"
proof (cases "status s = Running")
  case False
  then show ?thesis by (simp add: step_def)
next
  case True
  show ?thesis
  proof (cases ev)
    case CtxDone
    with True show ?thesis by (simp add: step_def returnLoop_def)
  next
    case (Tick pr)
    with True show ?thesis by (simp add: step_def resetToZero_cumulatives)
  next
    case (CmdArrive cmd)
    with assms show ?thesis by simp
  next
    case (CmdClosed pr)
    with True show ?thesis by (simp add: step_def returnLoop_def)
  next
    case (LineArrive line pr)
    let ?p = "(p4m s)\<lparr> linesRead := linesRead (p4m s) + 1 \<rparr>"
    have "cumulatives ?p = cumulatives (p4m s)" by (simp add: cumulatives_def)
    with detector_cumulatives [of ?p line] True LineArrive show ?thesis
      by (simp add: step_def Let_def cumulatives_def split: option.splits)
  next
    case LinesClosed
    with True show ?thesis by (simp add: step_def)
  qed
qed

lemma step_historical: "historical (p4m (step ext s ev)) = historical (p4m s)"
proof (cases "status s = Running")
  case False
  then show ?thesis by (simp add: step_def)
next
  case True
  show ?thesis
  proof (cases ev)
    case CtxDone
    with True show ?thesis by (simp add: step_def returnLoop_def)
  next
    case (Tick pr)
    with True show ?thesis
      by (simp add: step_def resetToZero_def resetLocks_eq Let_def)
  next
    case (CmdArrive cmd)
    let ?p = "(p4m s)\<lparr> cmdsProcessed := cmdsProcessed (p4m s) + 1 \<rparr>"
    show ?thesis
    proof (cases "publishEvent ext ?p cmd")
      case (Inl e)
      with True CmdArrive show ?thesis by (simp add: step_def)
    next
      case (Inr p')
      from Inr obtain p1 where p1: "recordUser ext (recordCmd ?p cmd) cmd = Inr p1"
        and p': "p' = recordTables (recordProgram (recordIP p1 cmd) cmd) cmd"
        by (rule publishEvent_InrD)
      have "historical p' = historical (p4m s)"
        unfolding p' recordTables_def using recordUser_frame [OF p1]
        by (simp add: fold_recordTable_frame recordProgram_def recordIP_def recordCmd_def
              Let_def split: prod.splits)
      with True CmdArrive Inr show ?thesis by (simp add: step_def)
    qed
  next
    case (CmdClosed pr)
    with True show ?thesis by (simp add: step_def returnLoop_def)
  next
    case (LineArrive line pr)
    let ?p = "(p4m s)\<lparr> linesRead := linesRead (p4m s) + 1 \<rparr>"
    from detector_cumulatives [of ?p line] True LineArrive show ?thesis
      by (simp add: step_def Let_def split: option.splits)
  next
    case LinesClosed
    with True show ?thesis by (simp add: step_def)
  qed
qed

lemma run_historical: "historical (p4m (run ext s evs)) = historical (p4m s)"
  by (induction evs arbitrary: s) (simp_all add: step_historical)

lemma start_historical: "historical (p4m (start cfg hist need)) = hist"
  by (simp add: start_def ProcessEvents_def NewP4DMetricsLogParser_def)

lemma step_counters_historical:
  assumes "historical (p4m s)" and "\<forall>c. ev \<noteq> CmdArrive c"
  shows "counters (p4m (step ext s ev)) = counters (p4m s) \<and>
     (linesRead (p4m (step ext s ev)) = linesRead (p4m s)
      \<or> (\<exists>line pr. ev = LineArrive line pr)
        \<and> linesRead (p4m (step ext s ev)) = linesRead (p4m s) + 1)"
proof (cases "status s = Running")
  case False
  then show ?thesis by (simp add: step_def)
next
  case True
  show ?thesis
  proof (cases ev)
    case CtxDone
    with True show ?thesis by (simp add: step_def returnLoop_def)
  next
    case (Tick pr)
    with True assms(1) show ?thesis by (simp add: step_def)
  next
    case (CmdArrive cmd)
    with assms(2) show ?thesis by simp
  next
    case (CmdClosed pr)
    with True show ?thesis by (simp add: step_def returnLoop_def)
  next
    case (LineArrive line pr)
    let ?p = "(p4m s)\<lparr> linesRead := linesRead (p4m s) + 1 \<rparr>"
    have "counters ?p = counters (p4m s)" by (simp add: counters_def)
    with detector_cumulatives [of ?p line] True LineArrive show ?thesis
      by (simp add: step_def Let_def split: option.splits)
  next
    case LinesClosed
    with True show ?thesis by (simp add: step_def)
  qed
qed

lemma step_command:
  assumes "detailKeysAgree (p4m s)"
  shows "p4m (step ext s (CmdArrive c)) = p4m s
     \<or> commandAdded ext (p4m s) c (p4m (step ext s (CmdArrive c)))"
proof (cases "status s = Running")
  case False
  then show ?thesis by (simp add: step_def)
next
  case True
  let ?p = "(p4m s)\<lparr> cmdsProcessed := cmdsProcessed (p4m s) + 1 \<rparr>"
  show ?thesis
  proof (cases "publishEvent ext ?p c")
    case (Inl e)
    with True show ?thesis by (simp add: step_def)
  next
    case (Inr p')
    from publishEvent_commandAdded [OF Inr assms] True Inr show ?thesis
      by (simp add: step_def)
  qed
qed

text \<open>
  C1, as amended. Let \<open>s\<close> be any state the engine reaches from a fresh aggregator.
  In live mode, while the loop runs, a tick sends the snapshot of the aggregates and
  then leaves every counter-class aggregate at zero: the per-command counts and error
  counts, the per-user, per-IP, per-replica, per-program and per-(user, command)
  counts, the running-command gauge, the count of lines read, the five sync counts,
  the four per-table lock totals and the per-trigger lapse totals. (The last snapshot,
  sent when the command channel is closed, is not followed by a reset.) In either mode
  no event but the arrival of a command changes a total in seconds or the count of
  commands processed, and the arrival of a command changes nothing or adds the
  command's share to each aggregate. In historical mode no event but the arrival of a
  command changes any counter-class aggregate, except that a line adds one to the
  count of lines read; nothing is ever set back.
\<close>

theorem reset_classes:
  assumes "s = run ext (start cfg hist need) evs"
  shows "(\<not> hist \<and> status s = Running \<longrightarrow>
        metricsChan (step ext s (Tick pr)) = metricsChan s @ [getCumulativeMetrics (p4m s) pr] \<and>
        p4m (step ext s (Tick pr)) = resetToZero (p4m s) \<and>
        countersZero (p4m (step ext s (Tick pr))) \<and>
        cumulatives (p4m (step ext s (Tick pr))) = cumulatives (p4m s)) \<and>
     (\<forall>ev. (\<forall>c. ev \<noteq> CmdArrive c) \<longrightarrow>
        cumulatives (p4m (step ext s ev)) = cumulatives (p4m s)) \<and>
     (\<forall>c. p4m (step ext s (CmdArrive c)) = p4m s
        \<or> commandAdded ext (p4m s) c (p4m (step ext s (CmdArrive c)))) \<and>
     (hist \<longrightarrow>
        (\<forall>ev. (\<forall>c. ev \<noteq> CmdArrive c) \<longrightarrow>
           counters (p4m (step ext s ev)) = counters (p4m s) \<and>
           (linesRead (p4m (step ext s ev)) = linesRead (p4m s)
            \<or> (\<exists>line pr. ev = LineArrive line pr)
              \<and> linesRead (p4m (step ext s ev)) = linesRead (p4m s) + 1)))"
proof -
  have k: "keysAgree (p4m s)"
    unfolding assms by (rule keysAgree_run [OF keysAgree_start])
  have h: "historical (p4m s) = hist"
    unfolding assms by (simp add: run_historical start_historical)
  have a: "\<not> hist \<and> status s = Running \<longrightarrow>
        metricsChan (step ext s (Tick pr)) = metricsChan s @ [getCumulativeMetrics (p4m s) pr] \<and>
        p4m (step ext s (Tick pr)) = resetToZero (p4m s) \<and>
        countersZero (p4m (step ext s (Tick pr))) \<and>
        cumulatives (p4m (step ext s (Tick pr))) = cumulatives (p4m s)"
    using k h
    by (simp add: step_def keysAgree_def resetToZero_countersZero resetToZero_cumulatives)
  have b: "\<forall>ev. (\<forall>c. ev \<noteq> CmdArrive c) \<longrightarrow>
        cumulatives (p4m (step ext s ev)) = cumulatives (p4m s)"
    by (simp add: step_cumulatives)
  have c: "\<forall>c. p4m (step ext s (CmdArrive c)) = p4m s
        \<or> commandAdded ext (p4m s) c (p4m (step ext s (CmdArrive c)))"
    using k step_command [of s ext] by (simp add: keysAgree_def)
  have d: "hist \<longrightarrow>
        (\<forall>ev. (\<forall>c. ev \<noteq> CmdArrive c) \<longrightarrow>
           counters (p4m (step ext s ev)) = counters (p4m s) \<and>
           (linesRead (p4m (step ext s ev)) = linesRead (p4m s)
            \<or> (\<exists>line pr. ev = LineArrive line pr)
              \<and> linesRead (p4m (step ext s ev)) = linesRead (p4m s) + 1))"
    using h step_counters_historical [of s _ ext] by blast
  from a b c d show ?thesis by blast
qed

lemma liveAfterSample_facts:
  "status liveAfterSample = Running" "\<not> historical (p4m liveAfterSample)"
  "cmdCounter (p4m liveAfterSample) = [(''user-sync'', 1)]"
  "cmdCumulative (p4m liveAfterSample) = [(''user-sync'', 3 / 2)]"
  "cmdsProcessed (p4m liveAfterSample) = 1"
  by code_simp+

lemma histAfterSample_facts:
  "cmdCounter (p4m histAfterSample) = [(''user-sync'', 1)]"
  "linesRead (p4m histAfterSample) = 1"
  by code_simp+

theorem reset_classes_witness:
  "status liveAfterSample = Running \<and>
   countersZero (p4m (step sampleExt liveAfterSample (Tick sampleProbes))) \<and>
   cmdCumulative (p4m (step sampleExt liveAfterSample (Tick sampleProbes)))
     = [(''user-sync'', 3 / 2)] \<and>
   cmdsProcessed (p4m (step sampleExt liveAfterSample (Tick sampleProbes))) = 1 \<and>
   cmdCounter (p4m (step sampleExt histAfterSample (Tick sampleProbes)))
     = [(''user-sync'', 1)]"
proof -
  note t1 = reset_classes [of liveAfterSample sampleExt sampleConfig False True
      "[CmdArrive sampleCommand]" sampleProbes, OF liveAfterSample_def]
  note t2 = reset_classes [of histAfterSample sampleExt sampleConfig True True
      sampleHistory sampleProbes, OF histAfterSample_def]
  from t1 liveAfterSample_facts(1) have
    z: "countersZero (p4m (step sampleExt liveAfterSample (Tick sampleProbes)))"
    and c: "cumulatives (p4m (step sampleExt liveAfterSample (Tick sampleProbes)))
      = cumulatives (p4m liveAfterSample)"
    by blast+
  have n: "\<forall>c. Tick sampleProbes \<noteq> CmdArrive c" by simp
  from t2 n have "counters (p4m (step sampleExt histAfterSample (Tick sampleProbes)))
      = counters (p4m histAfterSample)"
    by blast
  then have h: "cmdCounter (p4m (step sampleExt histAfterSample (Tick sampleProbes)))
      = cmdCounter (p4m histAfterSample)"
    by (simp add: counters_def)
  from c have "cmdCumulative (p4m (step sampleExt liveAfterSample (Tick sampleProbes)))
      = cmdCumulative (p4m liveAfterSample)"
    and "cmdsProcessed (p4m (step sampleExt liveAfterSample (Tick sampleProbes)))
      = cmdsProcessed (p4m liveAfterSample)"
    by (simp_all add: cumulatives_def)
  with z h liveAfterSample_facts histAfterSample_facts show ?thesis by simp
qed

text \<open>
  The claim as first stated resets the counters after each flush in live mode. The last
  flush, made when the command channel is closed, is not followed by a reset: after the
  sample command and that flush the per-command count still reads one.
\<close>

theorem final_flush_without_reset_counterexample:
  "\<not> historical (p4m liveAfterSample) \<and> status liveAfterSample = Running \<and>
   metricsChan (step sampleExt liveAfterSample (CmdClosed sampleProbes))
     = metricsChan liveAfterSample @ [getCumulativeMetrics (p4m liveAfterSample) sampleProbes] \<and>
   m_load (cmdCounter (p4m (step sampleExt liveAfterSample (CmdClosed sampleProbes))))
     ''user-sync'' = 1 \<and>
   \<not> countersZero (p4m (step sampleExt liveAfterSample (CmdClosed sampleProbes)))"
proof -
  have p: "p4m (step sampleExt liveAfterSample (CmdClosed sampleProbes)) = p4m liveAfterSample"
    using liveAfterSample_facts(1) by (simp add: step_def returnLoop_def)
  have m: "metricsChan (step sampleExt liveAfterSample (CmdClosed sampleProbes))
     = metricsChan liveAfterSample @ [getCumulativeMetrics (p4m liveAfterSample) sampleProbes]"
    using liveAfterSample_facts(1) by (simp add: step_def returnLoop_def)
  have v: "m_load (cmdCounter (p4m liveAfterSample)) ''user-sync'' = 1"
    by (simp add: liveAfterSample_facts(3) m_load_def)
  have "\<not> allZero (cmdCounter (p4m liveAfterSample))"
    by (simp add: liveAfterSample_facts(3) allZero_def m_keys_def m_load_def)
  then have z: "\<not> countersZero (p4m liveAfterSample)" by (simp add: countersZero_def)
  from p m v z liveAfterSample_facts(1,2) show ?thesis by simp
qed


end
